theory Spec2Isabelle
  imports Main "HOL-Library.Word" "HOL-Library.Sublist"
begin

section \<open>Shared data model\<close>

text \<open>
  The flat error vocabulary. The constructors up to \<open>Blockchain_reorganized\<close> are the
  codes the validator and the pool name; \<open>Unknown\<close> is \<^verbatim>\<open>error::unknown\<close>, and
  \<open>Other_error n\<close> stands for the remaining codes of the error enumeration, which only
  the per-transaction checks can produce.
\<close>

datatype code =
    Success
  | Service_stopped | Operation_failed | Not_found
  | Size_limits | First_not_coinbase | Extra_coinbases | Duplicate
  | Merkle_mismatch | Too_many_sigs
  | Proof_of_work | Incorrect_proof_of_work | Futuristic_timestamp
  | Timestamp_too_early | Checkpoints_failed | Old_version_block
  | Coinbase_height_mismatch
  | Non_final_transaction | Input_not_found | Duplicate_or_spent
  | Validate_inputs_failed
  | Pool_filled | Blockchain_reorganized
  | Unknown
  | Other_error nat

type_synonym hash_digest = "256 word"
type_synonym data_chunk = "8 word list"

text \<open>An opcode is an enumeration over \<^verbatim>\<open>uint8_t\<close>; the code casts it to its raw value.\<close>

type_synonym opcode = "8 word"

record operation =
  op_code :: opcode
  op_data :: data_chunk

record script =
  operations :: "operation list"

record output_point =
  point_hash :: hash_digest
  point_index :: "32 word"

record input =
  previous_output :: output_point
  input_script :: script
  sequence :: "32 word"

record tx_output =
  output_value :: "64 word"
  output_script :: script

record transaction =
  tx_version :: "32 word"
  locktime :: "32 word"
  inputs :: "input list"
  outputs :: "tx_output list"

record header =
  version :: "32 word"
  previous_block_hash :: hash_digest
  merkle :: hash_digest
  timestamp :: "32 word"
  bits :: "32 word"
  nonce :: "32 word"

record block =
  block_header :: header
  transactions :: "transaction list"

section \<open>Transaction pool (transaction_pool.cpp)\<close>

text \<open>
  A confirmation handler is a \<^verbatim>\<open>std::function\<close>. One that holds a callable is named by
  a number, and every invocation is recorded, in order, in the pool's \<open>fired\<close> log; an
  empty one is \<open>None\<close>, and calling it throws \<^verbatim>\<open>std::bad_function_call\<close>. A
  validation handler is the caller's and is taken to hold a callable.
\<close>

type_synonym handler_id = nat

datatype event =
    Confirm handler_id code
  | Validate handler_id code "nat list"

record transaction_entry_info =
  entry_hash :: hash_digest
  entry_tx :: transaction
  handle_confirm :: "handler_id option"

text \<open>
  The pool object: the circular buffer with its capacity, the stop flag, the log of
  handler invocations and the number of reorganization subscriptions taken out.
\<close>

record transaction_pool =
  buffer :: "transaction_entry_info list"
  capacity :: nat
  stopped_flag :: bool
  fired :: "event list"
  subscriptions :: nat

text \<open>
  What the pool calls but does not define: the transaction hash and the outcome of
  \<^verbatim>\<open>validate_transaction::start\<close> against the current buffer.
\<close>

record pool_env =
  tx_hash :: "transaction \<Rightarrow> hash_digest"
  validate_start :: "transaction \<Rightarrow> transaction_entry_info list \<Rightarrow> code \<times> nat list"

text \<open>
  How an operation on the pool ends: it returns and leaves a pool; or a call of an empty
  handler throws, and the exception leaves the operation with the pool as it is at that
  point; or it reads \<^verbatim>\<open>front()\<close> of an empty buffer, which is outside the container's
  contract.
\<close>

datatype outcome =
    Done transaction_pool
  | Bad_function_call transaction_pool
  | Front_of_empty_buffer

text \<open>Sequencing: what follows runs only when the first part returns.\<close>

definition and_then :: "outcome \<Rightarrow> (transaction_pool \<Rightarrow> outcome) \<Rightarrow> outcome" where
  "and_then r f = (case r of Done p \<Rightarrow> f p | Bad_function_call p \<Rightarrow> Bad_function_call p
                   | Front_of_empty_buffer \<Rightarrow> Front_of_empty_buffer)"

text \<open>The pool an operation leaves behind, when it leaves one.\<close>

definition left_pool :: "outcome \<Rightarrow> transaction_pool option" where
  "left_pool r = (case r of Done p \<Rightarrow> Some p | Bad_function_call p \<Rightarrow> Some p
                  | Front_of_empty_buffer \<Rightarrow> None)"

type_synonym validate_handler = "code \<Rightarrow> nat list \<Rightarrow> transaction_pool \<Rightarrow> outcome"

definition fire :: "event \<Rightarrow> transaction_pool \<Rightarrow> transaction_pool" where
  "fire e p = p\<lparr>fired := fired p @ [e]\<rparr>"

text \<open>Calling a confirmation handler with a code.\<close>

definition call_confirm :: "handler_id option \<Rightarrow> code \<Rightarrow> transaction_pool \<Rightarrow> outcome" where
  "call_confirm h ec p =
     (case h of None \<Rightarrow> Bad_function_call p | Some k \<Rightarrow> Done (fire (Confirm k ec) p))"

text \<open>A caller's validation handler: invoking it is recorded and changes nothing else.\<close>

definition user_validate :: "handler_id \<Rightarrow> validate_handler" where
  "user_validate h ec unconfirmed p = Done (fire (Validate h ec unconfirmed) p)"

definition start :: "transaction_pool \<Rightarrow> transaction_pool" where
  "start p = p\<lparr>stopped_flag := False, subscriptions := Suc (subscriptions p)\<rparr>"

definition stop :: "transaction_pool \<Rightarrow> transaction_pool" where
  "stop p = p\<lparr>stopped_flag := True\<rparr>"

definition stopped :: "transaction_pool \<Rightarrow> bool" where
  "stopped p = stopped_flag p"

definition tx_find :: "hash_digest \<Rightarrow> transaction_pool \<Rightarrow> transaction_entry_info option" where
  "tx_find h p = find (\<lambda>entry. entry_hash entry = h) (buffer p)"

definition tx_exists :: "hash_digest \<Rightarrow> transaction_pool \<Rightarrow> bool" where
  "tx_exists h p = (tx_find h p \<noteq> None)"

definition validation_complete ::
  "code \<Rightarrow> nat list \<Rightarrow> hash_digest \<Rightarrow> validate_handler \<Rightarrow> transaction_pool \<Rightarrow> outcome" where
  "validation_complete ec unconfirmed h handle_validate p =
     (if stopped p then handle_validate Service_stopped [] p
      else if ec = Input_not_found \<or> ec = Validate_inputs_failed
        then handle_validate ec unconfirmed p
      else if ec \<noteq> Success then handle_validate ec [] p
      else if tx_exists h p then handle_validate Duplicate [] p
      else handle_validate Success unconfirmed p)"

text \<open>
  The ordered dispatcher runs one work item at a time; the model runs each item to
  completion at the point where the code queues it.
\<close>

definition do_validate ::
  "pool_env \<Rightarrow> transaction \<Rightarrow> validate_handler \<Rightarrow> transaction_pool \<Rightarrow> outcome" where
  "do_validate env tx handle_validate p =
     (if stopped p then handle_validate Service_stopped [] p
      else (case validate_start env tx (buffer p) of
              (ec, unconfirmed) \<Rightarrow>
                validation_complete ec unconfirmed (tx_hash env tx) handle_validate p))"

definition validate ::
  "pool_env \<Rightarrow> transaction \<Rightarrow> validate_handler \<Rightarrow> transaction_pool \<Rightarrow> outcome" where
  "validate env tx handle_validate p = do_validate env tx handle_validate p"

text \<open>
  \<^verbatim>\<open>boost::circular_buffer::push_back\<close>: a full buffer overwrites its oldest element,
  a buffer of capacity zero stores nothing.
\<close>

definition push_back :: "transaction_entry_info \<Rightarrow> transaction_pool \<Rightarrow> transaction_pool" where
  "push_back e p =
     (if capacity p = 0 then p
      else if length (buffer p) = capacity p then p\<lparr>buffer := tl (buffer p) @ [e]\<rparr>
      else p\<lparr>buffer := buffer p @ [e]\<rparr>)"

text \<open>
  The closure \<^verbatim>\<open>store_transaction\<close>: a full buffer has the handler of its front entry
  called with \<open>Pool_filled\<close> before the new entry is pushed.
\<close>

definition store_transaction ::
  "pool_env \<Rightarrow> transaction \<Rightarrow> handler_id option \<Rightarrow> transaction_pool \<Rightarrow> outcome" where
  "store_transaction env tx handle_confirm_new p =
     (if length (buffer p) = capacity p then
        (case buffer p of
           [] \<Rightarrow> Front_of_empty_buffer
         | front # _ \<Rightarrow>
             and_then (call_confirm (handle_confirm front) Pool_filled p)
               (\<lambda>q. Done (push_back
                  \<lparr>entry_hash = tx_hash env tx, entry_tx = tx,
                   handle_confirm = handle_confirm_new\<rparr> q)))
      else Done (push_back
             \<lparr>entry_hash = tx_hash env tx, entry_tx = tx, handle_confirm = handle_confirm_new\<rparr> p))"

text \<open>The closure \<^verbatim>\<open>wrap_validate\<close> of \<^verbatim>\<open>store\<close>.\<close>

definition wrap_validate ::
  "pool_env \<Rightarrow> transaction \<Rightarrow> handler_id option \<Rightarrow> validate_handler \<Rightarrow> validate_handler" where
  "wrap_validate env tx handle_confirm_new handle_validate ec unconfirmed p =
     (if ec = Success
      then and_then (store_transaction env tx handle_confirm_new p)
             (handle_validate ec unconfirmed)
      else handle_validate ec unconfirmed p)"

definition store ::
  "pool_env \<Rightarrow> transaction \<Rightarrow> handler_id option \<Rightarrow> handler_id \<Rightarrow> transaction_pool
     \<Rightarrow> outcome" where
  "store env tx handle_confirm_new handle_validate p =
     (if stopped p then Done p
      else validate env tx
             (wrap_validate env tx handle_confirm_new (user_validate handle_validate)) p)"

text \<open>
  \<^verbatim>\<open>invalidate_pool\<close>: the loop over the buffer, which calls every entry's handler, then
  \<^verbatim>\<open>clear\<close>. A call that throws ends the loop, and \<^verbatim>\<open>clear\<close> is not reached.
\<close>

fun confirm_each :: "code \<Rightarrow> transaction_entry_info list \<Rightarrow> transaction_pool \<Rightarrow> outcome" where
  "confirm_each ec [] p = Done p"
| "confirm_each ec (entry # entries) p =
     and_then (call_confirm (handle_confirm entry) ec p) (confirm_each ec entries)"

definition invalidate_pool :: "transaction_pool \<Rightarrow> outcome" where
  "invalidate_pool p =
     (if stopped p then Done p
      else and_then (confirm_each Blockchain_reorganized (buffer p) p)
             (\<lambda>q. Done (q\<lparr>buffer := []\<rparr>)))"

text \<open>
  The state in which a move-assignment leaves its source entry. The hash is an array
  and is copied. The standard promises only a valid state for the rest; the library
  implementations empty the vectors of the transaction and the \<^verbatim>\<open>std::function\<close>.
\<close>

definition moved_from :: "transaction_entry_info \<Rightarrow> transaction_entry_info" where
  "moved_from entry =
     entry\<lparr>entry_tx := (entry_tx entry)\<lparr>inputs := [], outputs := []\<rparr>,
           handle_confirm := None\<rparr>"

text \<open>
  \<^verbatim>\<open>try_delete_tx\<close> calls \<^verbatim>\<open>std::remove_if\<close> over the buffer and drops the iterator it
  returns; no \<^verbatim>\<open>erase\<close> follows. The algorithm is the standard one: find the first
  element the predicate accepts, then walk the rest, move-assigning every element the
  predicate rejects down to the write position. The predicate \<^verbatim>\<open>match_and_confirm\<close>
  calls the entry's handler with success when the hashes are equal.
\<close>

fun find_if_index :: "hash_digest \<Rightarrow> transaction_entry_info list \<Rightarrow> nat option" where
  "find_if_index h [] = None"
| "find_if_index h (entry # entries) =
     (if entry_hash entry = h then Some 0 else map_option Suc (find_if_index h entries))"

text \<open>
  The walk after the first match: \<open>result\<close> is the write position, \<open>i\<close> the read
  position, and the third number counts the elements still to read.
\<close>

fun remove_if_rest ::
  "hash_digest \<Rightarrow> nat \<Rightarrow> nat \<Rightarrow> nat \<Rightarrow> transaction_pool \<Rightarrow> outcome" where
  "remove_if_rest h result i 0 p = Done p"
| "remove_if_rest h result i (Suc n) p =
     (let entry = buffer p ! i in
      if entry_hash entry = h
      then and_then (call_confirm (handle_confirm entry) Success p)
             (remove_if_rest h result (Suc i) n)
      else remove_if_rest h (Suc result) (Suc i) n
             (p\<lparr>buffer := (buffer p)[result := entry, i := moved_from entry]\<rparr>))"

definition try_delete_tx :: "hash_digest \<Rightarrow> transaction_pool \<Rightarrow> outcome" where
  "try_delete_tx h p =
     (if stopped p then Done p
      else (case find_if_index h (buffer p) of
              None \<Rightarrow> Done p
            | Some k \<Rightarrow>
                and_then (call_confirm (handle_confirm (buffer p ! k)) Success p)
                  (remove_if_rest h k (Suc k) (length (buffer p) - Suc k))))"

fun delete_block_txs :: "pool_env \<Rightarrow> transaction list \<Rightarrow> transaction_pool \<Rightarrow> outcome" where
  "delete_block_txs env [] p = Done p"
| "delete_block_txs env (new_tx # txs) p =
     and_then (try_delete_tx (tx_hash env new_tx) p) (delete_block_txs env txs)"

fun delete_blocks :: "pool_env \<Rightarrow> block list \<Rightarrow> transaction_pool \<Rightarrow> outcome" where
  "delete_blocks env [] p = Done p"
| "delete_blocks env (new_block # blocks) p =
     and_then (delete_block_txs env (transactions new_block) p) (delete_blocks env blocks)"

definition delete_confirmed :: "pool_env \<Rightarrow> block list \<Rightarrow> transaction_pool \<Rightarrow> outcome" where
  "delete_confirmed env new_blocks p =
     (if stopped p then Done p
      else if buffer p = [] then Done p
      else delete_blocks env new_blocks p)"

text \<open>
  The reorganization handler. An event that carries an error stops the pool; otherwise
  the pool queues the reconciliation and subscribes again. The subscription is taken
  out by the handler itself, so it stands however the queued item ends.
\<close>

definition resubscribe :: "outcome \<Rightarrow> outcome" where
  "resubscribe r =
     (case r of
        Done q \<Rightarrow> Done (q\<lparr>subscriptions := Suc (subscriptions q)\<rparr>)
      | Bad_function_call q \<Rightarrow> Bad_function_call (q\<lparr>subscriptions := Suc (subscriptions q)\<rparr>)
      | Front_of_empty_buffer \<Rightarrow> Front_of_empty_buffer)"

definition reorganize ::
  "pool_env \<Rightarrow> code \<Rightarrow> nat \<Rightarrow> block list \<Rightarrow> block list \<Rightarrow> transaction_pool \<Rightarrow> outcome" where
  "reorganize env ec fork_point new_blocks replaced_blocks p =
     (if ec = Service_stopped then Done (stop p)
      else if ec \<noteq> Success then Done (stop p)
      else resubscribe (if replaced_blocks = [] then delete_confirmed env new_blocks p
                        else invalidate_pool p))"

subsection \<open>Sample pool data\<close>

text \<open>A transaction with one input and one output, told apart by its lock time.\<close>

definition sample_tx :: "32 word \<Rightarrow> transaction" where
  "sample_tx n =
     \<lparr>tx_version = 1, locktime = n,
      inputs = [\<lparr>previous_output = \<lparr>point_hash = ucast n + 100, point_index = 0\<rparr>,
                 input_script = \<lparr>operations = []\<rparr>, sequence = - 1\<rparr>],
      outputs = [\<lparr>output_value = 1000, output_script = \<lparr>operations = []\<rparr>\<rparr>]\<rparr>"

text \<open>
  A stand-in for the double SHA-256 of the serialization: a sum over the lock time and
  the previous outputs, which tells the sample transactions apart.
\<close>

definition sample_tx_hash :: "transaction \<Rightarrow> hash_digest" where
  "sample_tx_hash tx =
     ucast (locktime tx) + 1
     + sum_list (map (\<lambda>i. 1000 * point_hash (previous_output i)
                           + 7 * ucast (point_index (previous_output i))) (inputs tx))"

definition sample_pool_env :: pool_env where
  "sample_pool_env =
     \<lparr>tx_hash = sample_tx_hash,
      validate_start = (\<lambda>tx entries. (Success, []))\<rparr>"

text \<open>The entry that \<^verbatim>\<open>store\<close> makes of sample transaction \<open>n\<close> with the callable \<open>h\<close>.\<close>

definition sample_entry :: "32 word \<Rightarrow> handler_id \<Rightarrow> transaction_entry_info" where
  "sample_entry n h =
     \<lparr>entry_hash = sample_tx_hash (sample_tx n), entry_tx = sample_tx n,
      handle_confirm = Some h\<rparr>"

definition sample_pool :: "transaction_entry_info list \<Rightarrow> bool \<Rightarrow> transaction_pool" where
  "sample_pool entries flag =
     \<lparr>buffer = entries, capacity = 4, stopped_flag = flag, fired = [], subscriptions = 1\<rparr>"

definition sample_block :: "transaction list \<Rightarrow> block" where
  "sample_block txs =
     \<lparr>block_header = \<lparr>version = 2, previous_block_hash = 0, merkle = 0, timestamp = 0,
                      bits = 0, nonce = 0\<rparr>,
      transactions = txs\<rparr>"

section \<open>Block validator (validate_block.cpp)\<close>

subsection \<open>Constants\<close>

definition max_block_size :: nat where
  "max_block_size = 1000000"

definition max_block_script_sig_operations :: nat where
  "max_block_script_sig_operations = max_block_size div 50"


definition bip30_exception_block1 :: nat where
  "bip30_exception_block1 = 91842"

definition bip30_exception_block2 :: nat where
  "bip30_exception_block2 = 91880"

definition target_timespan :: "64 word" where
  "target_timespan = 2 * 7 * 24 * 60 * 60"

definition target_spacing :: "64 word" where
  "target_spacing = 10 * 60"

definition readjustment_interval :: "64 word" where
  "readjustment_interval = target_timespan div target_spacing"

text \<open>
  Constants of the base library that the validator reads: the compact form of the
  easiest target, the money supply in base units and the coinbase maturity, with the
  values the specification lists. The opcodes are given by their raw byte values.
\<close>

definition max_work_bits :: "32 word" where
  "max_work_bits = 0x1d00ffff"

definition max_money :: "64 word" where
  "max_money = 2100000000000000"

definition coinbase_maturity :: nat where
  "coinbase_maturity = 100"

definition special :: opcode where "special = 1"
definition op_1 :: opcode where "op_1 = 81"
definition op_16 :: opcode where "op_16 = 96"
definition checksig :: opcode where "checksig = 172"
definition checksigverify :: opcode where "checksigverify = 173"
definition checkmultisig :: opcode where "checkmultisig = 174"
definition checkmultisigverify :: opcode where "checkmultisigverify = 175"
definition bad_operation :: opcode where "bad_operation = 186"

datatype payment_type = Script_hash | Other_payment_type

subsection \<open>The validator object and the library it calls\<close>

text \<open>
  Functions of the base library (hashing, serialization, compact targets, the
  per-transaction checks, the script interpreter). They are not part of the validator;
  every definition below takes them as a parameter.
\<close>

record chain_lib =
  transaction_hash :: "transaction \<Rightarrow> hash_digest"
  header_hash :: "header \<Rightarrow> hash_digest"
  serialized_size :: "block \<Rightarrow> nat"
  is_coinbase :: "transaction \<Rightarrow> bool"
  check_transaction :: "transaction \<Rightarrow> code"
  generate_merkle_root :: "transaction list \<Rightarrow> hash_digest"
  set_compact :: "32 word \<Rightarrow> bool \<times> 256 word"
  compact :: "256 word \<Rightarrow> 32 word"
  max_target :: "256 word"
  set_hash :: "hash_digest \<Rightarrow> 256 word"
  is_final :: "transaction \<Rightarrow> nat \<Rightarrow> 32 word \<Rightarrow> bool"
  checkpoint_validate :: "hash_digest \<Rightarrow> nat \<Rightarrow> (nat \<times> hash_digest) list \<Rightarrow> bool"
  validate_consensus :: "script \<Rightarrow> transaction \<Rightarrow> nat \<Rightarrow> header \<Rightarrow> nat \<Rightarrow> bool"
  script_type :: "script \<Rightarrow> payment_type"
  script_from_data :: "data_chunk \<Rightarrow> script option"
  script_to_data :: "script \<Rightarrow> data_chunk"
  script_number_data :: "nat \<Rightarrow> data_chunk"

text \<open>
  The class \<^verbatim>\<open>validate_block\<close>: its members, then its pure virtual functions as fields.
  \<open>stop_callback v n\<close> is the answer of the stop callback to the \<open>n\<close>-th poll of a
  run, so the flag may change while a phase runs. \<open>set_compact\<close> above returns its
  success flag and the number it leaves in the target.
\<close>

record validate_block =
  block_height :: nat
  current_block :: block
  checkpoints :: "(nat \<times> hash_digest) list"
  stop_callback :: "nat \<Rightarrow> bool"
  actual_timespan :: "nat \<Rightarrow> 64 word"
  fetch_block :: "nat \<Rightarrow> header"
  fetch_transaction :: "hash_digest \<Rightarrow> (transaction \<times> nat) option"
  is_output_spent :: "output_point \<Rightarrow> bool"
  is_output_spent_by :: "output_point \<Rightarrow> nat \<Rightarrow> nat \<Rightarrow> bool"
  median_time_past :: "64 word"
  previous_block_bits :: "32 word"
  transaction_exists :: "hash_digest \<Rightarrow> bool"
  current_time :: nat

definition validator_stopped :: "validate_block \<Rightarrow> nat \<Rightarrow> bool" where
  "validator_stopped v n = stop_callback v n"

subsection \<open>check_block\<close>

text \<open>
  \<^verbatim>\<open>std::unique\<close> over the vector of hashes removes, from each run of equal neighbours,
  all but the first; the test compares the returned end with the end of the vector.
\<close>

definition is_distinct_tx_set :: "chain_lib \<Rightarrow> transaction list \<Rightarrow> bool" where
  "is_distinct_tx_set lib txs =
     (let hashes = map (transaction_hash lib) txs
      in length (remdups_adj hashes) = length hashes)"

definition is_valid_time_stamp :: "validate_block \<Rightarrow> 32 word \<Rightarrow> bool" where
  "is_valid_time_stamp v ts = (unat ts \<le> current_time v + 2 * 3600)"

definition is_valid_proof_of_work :: "chain_lib \<Rightarrow> hash_digest \<Rightarrow> 32 word \<Rightarrow> bool" where
  "is_valid_proof_of_work lib h b =
     (case set_compact lib b of
        (ok, target) \<Rightarrow>
          if \<not> ok then False
          else if target \<le> 0 \<or> target > max_target lib then False
          else set_hash lib h \<le> target)"

definition within_op_n :: "opcode \<Rightarrow> bool" where
  "within_op_n c = (op_1 \<le> c \<and> c \<le> op_16)"

definition decode_op_n :: "opcode \<Rightarrow> 8 word" where
  "decode_op_n c = c - op_1 + 1"

fun count_script_sigops_from :: "operation list \<Rightarrow> bool \<Rightarrow> opcode \<Rightarrow> nat \<Rightarrow> nat" where
  "count_script_sigops_from [] accurate last_opcode total_sigs = total_sigs"
| "count_script_sigops_from (operation # rest) accurate last_opcode total_sigs =
     count_script_sigops_from rest accurate (op_code operation)
       (if op_code operation = checksig \<or> op_code operation = checksigverify
          then total_sigs + 1
        else if op_code operation = checkmultisig \<or> op_code operation = checkmultisigverify
          then (if accurate \<and> within_op_n last_opcode
                then total_sigs + unat (decode_op_n last_opcode)
                else total_sigs + 20)
        else total_sigs)"

definition count_script_sigops :: "operation list \<Rightarrow> bool \<Rightarrow> nat" where
  "count_script_sigops ops accurate = count_script_sigops_from ops accurate bad_operation 0"

definition legacy_sigops_count_tx :: "transaction \<Rightarrow> nat" where
  "legacy_sigops_count_tx tx =
     sum_list (map (\<lambda>i. count_script_sigops (operations (input_script i)) False) (inputs tx))
     + sum_list (map (\<lambda>out. count_script_sigops (operations (output_script out)) False)
         (outputs tx))"

definition legacy_sigops_count :: "transaction list \<Rightarrow> nat" where
  "legacy_sigops_count txs = sum_list (map legacy_sigops_count_tx txs)"

text \<open>
  The two loops of \<^verbatim>\<open>check_block\<close>. Each polls the stop callback before it looks at a
  transaction; \<open>Inl\<close> is the code the loop completes with, \<open>Inr\<close> the number of the
  next poll.
\<close>

fun check_extra_coinbases ::
  "validate_block \<Rightarrow> chain_lib \<Rightarrow> transaction list \<Rightarrow> nat \<Rightarrow> code + nat" where
  "check_extra_coinbases v lib [] n = Inr n"
| "check_extra_coinbases v lib (tx # txs) n =
     (if validator_stopped v n then Inl Service_stopped
      else if is_coinbase lib tx then Inl Extra_coinbases
      else check_extra_coinbases v lib txs (Suc n))"

fun check_transactions ::
  "validate_block \<Rightarrow> chain_lib \<Rightarrow> transaction list \<Rightarrow> nat \<Rightarrow> code + nat" where
  "check_transactions v lib [] n = Inr n"
| "check_transactions v lib (tx # txs) n =
     (if validator_stopped v n then Inl Service_stopped
      else if check_transaction lib tx \<noteq> Success then Inl (check_transaction lib tx)
      else check_transactions v lib txs (Suc n))"

text \<open>The part of \<^verbatim>\<open>check_block\<close> after the per-transaction checks.\<close>

definition check_block_tail :: "validate_block \<Rightarrow> chain_lib \<Rightarrow> nat \<Rightarrow> code" where
  "check_block_tail v lib n =
     (let txs = transactions (current_block v); hdr = block_header (current_block v) in
      if validator_stopped v n then Service_stopped
      else if \<not> is_distinct_tx_set lib txs then Duplicate
      else if validator_stopped v (n + 1) then Service_stopped
      else if legacy_sigops_count txs > max_block_script_sig_operations then Too_many_sigs
      else if validator_stopped v (n + 2) then Service_stopped
      else if merkle hdr \<noteq> generate_merkle_root lib txs then Merkle_mismatch
      else Success)"

text \<open>\<^verbatim>\<open>check_block\<close>; the value is the code handed to the completion handler.\<close>

definition check_block :: "validate_block \<Rightarrow> chain_lib \<Rightarrow> code" where
  "check_block v lib =
     (let txs = transactions (current_block v); hdr = block_header (current_block v) in
      if txs = [] \<or> length txs > max_block_size
         \<or> serialized_size lib (current_block v) > max_block_size then Size_limits
      else if \<not> is_valid_proof_of_work lib (header_hash lib hdr) (bits hdr) then Proof_of_work
      else if validator_stopped v 0 then Service_stopped
      else if \<not> is_valid_time_stamp v (timestamp hdr) then Futuristic_timestamp
      else if validator_stopped v 1 then Service_stopped
      else if \<not> is_coinbase lib (hd txs) then First_not_coinbase
      else (case check_extra_coinbases v lib (tl txs) 2 of
              Inl ec \<Rightarrow> ec
            | Inr n \<Rightarrow>
                (case check_transactions v lib txs n of
                   Inl ec \<Rightarrow> ec
                 | Inr m \<Rightarrow> check_block_tail v lib m)))"

subsection \<open>accept_block\<close>

text \<open>\<^verbatim>\<open>range_constrain\<close> of the base library: the value, held between the two bounds.\<close>

definition range_constrain :: "64 word \<Rightarrow> 64 word \<Rightarrow> 64 word \<Rightarrow> 64 word" where
  "range_constrain val minimum maximum =
     (if val < minimum then minimum else if val > maximum then maximum else val)"

text \<open>
  \<^verbatim>\<open>work_required\<close> as built without \<^verbatim>\<open>ENABLE_TESTNET\<close>. The retarget number is a
  256-bit unsigned integer; its multiplication takes a 32-bit factor, so the constrained
  timespan is narrowed to 32 bits first. The flag of \<^verbatim>\<open>set_compact\<close> is not looked at.
\<close>

definition work_required :: "validate_block \<Rightarrow> chain_lib \<Rightarrow> 32 word" where
  "work_required v lib =
     (if block_height v = 0 then max_work_bits
      else if block_height v mod unat readjustment_interval \<noteq> 0 then previous_block_bits v
      else
        (let actual = actual_timespan v (unat readjustment_interval);
             constrained = range_constrain actual (target_timespan div 4) (target_timespan * 4);
             retarget0 = snd (set_compact lib (previous_block_bits v));
             retarget1 = retarget0 * ucast (ucast constrained :: 32 word);
             retarget2 = retarget1 div ucast target_timespan;
             retarget3 = (if retarget2 > max_target lib then max_target lib else retarget2)
         in compact lib retarget3))"





subsection \<open>connect_block\<close>

text \<open>
  A phase of \<^verbatim>\<open>connect_block\<close> reports through its completion handler. The model's
  value for a phase is the list of codes handed to that handler, in order, so that a
  handler that is never invoked, or invoked twice, shows.

  \<^verbatim>\<open>dispatcher::parallel\<close> of the base library starts one job per element and joins
  them with a synchronizer, which invokes the joined handler once: with the first
  failure, or with success once as many jobs have succeeded as the collection has
  elements. Over an empty collection no job completes and the handler is not invoked.
  The model takes the jobs in collection order; \<open>None\<close> is a job that never completes.
\<close>

fun first_failure :: "code option list \<Rightarrow> code option" where
  "first_failure [] = None"
| "first_failure (None # rest) = first_failure rest"
| "first_failure (Some c # rest) = (if c \<noteq> Success then Some c else first_failure rest)"

definition synchronize :: "code option list \<Rightarrow> code option" where
  "synchronize results =
     (case first_failure results of
        Some c \<Rightarrow> Some c
      | None \<Rightarrow> if results \<noteq> [] \<and> list_all (\<lambda>r. r = Some Success) results
                then Some Success else None)"

definition check_output_spent :: "validate_block \<Rightarrow> output_point \<Rightarrow> nat \<Rightarrow> code" where
  "check_output_spent v point n =
     (if validator_stopped v n then Service_stopped
      else if is_output_spent v point then Success else Duplicate_or_spent)"

text \<open>
  \<^verbatim>\<open>check_spent_duplicate\<close> for one transaction, polling from poll \<open>n\<close> on: the code it
  completes with, if it completes, and the number of polls it made.
\<close>

definition check_spent_duplicate ::
  "validate_block \<Rightarrow> chain_lib \<Rightarrow> transaction \<Rightarrow> nat \<Rightarrow> code option \<times> nat" where
  "check_spent_duplicate v lib tx n =
     (if validator_stopped v n then (Some Service_stopped, 1)
      else if \<not> transaction_exists v (transaction_hash lib tx) then (Some Success, 1)
      else
        (let points = map (\<lambda>i. \<lparr>point_hash = transaction_hash lib tx, point_index = of_nat i\<rparr>)
                        [0 ..< length (outputs tx)]
         in (synchronize
               (map (\<lambda>i. Some (check_output_spent v (points ! i) (Suc n + i)))
                  [0 ..< length points]),
             Suc (length points))))"

fun spent_duplicates ::
  "validate_block \<Rightarrow> chain_lib \<Rightarrow> transaction list \<Rightarrow> nat \<Rightarrow> code option list \<times> nat" where
  "spent_duplicates v lib [] n = ([], n)"
| "spent_duplicates v lib (tx # txs) n =
     (case check_spent_duplicate v lib tx n of
        (r, k) \<Rightarrow> (case spent_duplicates v lib txs (n + k) of (rs, m) \<Rightarrow> (r # rs, m)))"

text \<open>\<^verbatim>\<open>connect_block1\<close>: the code of the duplicate phase is received and not read.\<close>

definition connect_block1 :: "validate_block \<Rightarrow> code \<Rightarrow> nat \<Rightarrow> code list" where
  "connect_block1 v ec n =
     (if validator_stopped v n then [Service_stopped] else [Unknown])"

definition connect_block :: "validate_block \<Rightarrow> chain_lib \<Rightarrow> code list" where
  "connect_block v lib =
     (if validator_stopped v 0 then [Service_stopped]
      else if block_height v = bip30_exception_block1 \<or> block_height v = bip30_exception_block2
        then connect_block1 v Success 1
      else (case spent_duplicates v lib (transactions (current_block v)) 1 of
              (results, n) \<Rightarrow>
                (case synchronize results of
                   None \<Rightarrow> []
                 | Some ec \<Rightarrow> connect_block1 v ec n)))"

text \<open>
  The code with which the duplicate phase calls \<^verbatim>\<open>connect_block1\<close>, when it does: the
  rule is skipped at the two exception heights, which counts as success.
\<close>

definition bip30_phase :: "validate_block \<Rightarrow> chain_lib \<Rightarrow> code option" where
  "bip30_phase v lib =
     (if block_height v = bip30_exception_block1 \<or> block_height v = bip30_exception_block2
        then Some Success
      else synchronize (fst (spent_duplicates v lib (transactions (current_block v)) 1)))"

text \<open>The error taxonomy of the specification: every code it names, success included.\<close>

definition in_taxonomy :: "code \<Rightarrow> bool" where
  "in_taxonomy c = (c \<in> set
     [Success, Service_stopped, Operation_failed, Not_found,
      Size_limits, First_not_coinbase, Extra_coinbases, Duplicate, Merkle_mismatch,
      Too_many_sigs, Proof_of_work, Incorrect_proof_of_work, Futuristic_timestamp,
      Timestamp_too_early, Checkpoints_failed, Old_version_block, Coinbase_height_mismatch,
      Non_final_transaction, Input_not_found, Duplicate_or_spent, Validate_inputs_failed,
      Pool_filled, Blockchain_reorganized])"

subsection \<open>connect_input\<close>

text \<open>
  \<^verbatim>\<open>script_hash_signature_operations_count\<close>; \<open>None\<close> is the \<^verbatim>\<open>end_of_stream\<close> it
  throws when the last push of the input script does not parse.
\<close>

definition script_hash_signature_operations_count ::
  "chain_lib \<Rightarrow> script \<Rightarrow> script \<Rightarrow> nat option" where
  "script_hash_signature_operations_count lib out_script in_script =
     (if script_type lib out_script \<noteq> Script_hash then Some 0
      else if operations in_script = [] then Some 0
      else (case script_from_data lib (op_data (last (operations in_script))) of
              None \<Rightarrow> None
            | Some eval_script \<Rightarrow> Some (count_script_sigops (operations eval_script) True)))"

text \<open>
  Reading a vector past its end has no defined result. The model makes each such read
  a fault of its own instead of a value.
\<close>

datatype fault = Input_index_out_of_range | Output_index_out_of_range

text \<open>
  \<^verbatim>\<open>connect_input\<close>. The result carries the returned flag and the two reference
  parameters \<^verbatim>\<open>value_in\<close> and \<^verbatim>\<open>total_sigops\<close> as the call leaves them. Both are
  64-bit unsigned integers and their additions wrap; the height difference is an
  unsigned subtraction and wraps too.
\<close>

definition connect_input ::
  "validate_block \<Rightarrow> chain_lib \<Rightarrow> nat \<Rightarrow> transaction \<Rightarrow> nat \<Rightarrow> 64 word \<Rightarrow> 64 word
     \<Rightarrow> fault + (bool \<times> 64 word \<times> 64 word)" where
  "connect_input v lib index_in_parent current_tx input_index value_in total_sigops =
     (if \<not> input_index < length (inputs current_tx) then Inl Input_index_out_of_range
      else
        (let inp = inputs current_tx ! input_index; prev = previous_output inp in
         case fetch_transaction v (point_hash prev) of
           None \<Rightarrow> Inr (False, value_in, total_sigops)
         | Some (previous_tx, previous_height) \<Rightarrow>
             if \<not> unat (point_index prev) < length (outputs previous_tx)
               then Inl Output_index_out_of_range
             else
               (let previous_tx_out = outputs previous_tx ! unat (point_index prev) in
                case script_hash_signature_operations_count lib
                       (output_script previous_tx_out) (input_script inp) of
                  None \<Rightarrow> Inr (False, value_in, total_sigops)
                | Some count \<Rightarrow>
                    (let sigops = total_sigops + of_nat count in
                     if unat sigops > max_block_script_sig_operations
                       then Inr (False, value_in, sigops)
                     else if output_value previous_tx_out > max_money
                       then Inr (False, value_in, sigops)
                     else if is_coinbase lib previous_tx
                             \<and> (block_height v + 2 ^ 64 - previous_height) mod 2 ^ 64
                                 < coinbase_maturity
                       then Inr (False, value_in, sigops)
                     else if \<not> validate_consensus lib (output_script previous_tx_out)
                                 current_tx input_index (block_header (current_block v))
                                 (block_height v)
                       then Inr (False, value_in, sigops)
                     else if is_output_spent_by v prev index_in_parent input_index
                       then Inr (False, value_in, sigops)
                     else if value_in + output_value previous_tx_out > max_money
                       then Inr (False, value_in + output_value previous_tx_out, sigops)
                     else Inr (True, value_in + output_value previous_tx_out, sigops)))))"

text \<open>\<^verbatim>\<open>validate_inputs\<close>: the loop over the input indexes, from \<open>input_index\<close> on.\<close>

function validate_inputs_from ::
  "validate_block \<Rightarrow> chain_lib \<Rightarrow> transaction \<Rightarrow> nat \<Rightarrow> nat \<Rightarrow> 64 word \<Rightarrow> 64 word
     \<Rightarrow> fault + (bool \<times> 64 word \<times> 64 word)" where
  "validate_inputs_from v lib tx index_in_parent input_index value_in total_sigops =
     (if input_index < length (inputs tx) then
        (case connect_input v lib index_in_parent tx input_index value_in total_sigops of
           Inl f \<Rightarrow> Inl f
         | Inr (ok, value_in', total_sigops') \<Rightarrow>
             if \<not> ok then Inr (False, value_in', total_sigops')
             else validate_inputs_from v lib tx index_in_parent (Suc input_index)
                    value_in' total_sigops')
      else Inr (True, value_in, total_sigops))"
  by pat_completeness auto
termination
  by (relation "measure (\<lambda>(v, lib, tx, index_in_parent, input_index, value_in, total_sigops).
        length (inputs tx) - input_index)") auto

definition validate_inputs ::
  "validate_block \<Rightarrow> chain_lib \<Rightarrow> transaction \<Rightarrow> nat \<Rightarrow> 64 word \<Rightarrow> 64 word
     \<Rightarrow> fault + (bool \<times> 64 word \<times> 64 word)" where
  "validate_inputs v lib tx index_in_parent value_in total_sigops =
     validate_inputs_from v lib tx index_in_parent 0 value_in total_sigops"

section \<open>Chain-state population (populate_chain_state.cpp)\<close>

text \<open>
  Heights are \<^verbatim>\<open>size_t\<close>; the population loops subtract and increment them, so they are
  64-bit words here. \<open>unrequested\<close> is the largest of them.
\<close>

type_synonym height = "64 word"

definition unrequested :: height where
  "unrequested = - 1"

definition null_hash :: hash_digest where
  "null_hash = 0"

definition unspecified_timestamp :: "32 word" where
  "unspecified_timestamp = - 1"

definition hour_seconds :: "32 word" where
  "hour_seconds = 3600"

text \<open>\<^verbatim>\<open>chain_state::map\<close>: which heights the state at a height is derived from.\<close>

record chain_state_map =
  bits_high :: height
  bits_count :: height
  bits_self :: height
  version_high :: height
  version_count :: height
  version_self :: height
  timestamp_high :: height
  timestamp_count :: height
  timestamp_self :: height
  timestamp_retarget :: height
  allow_collisions_height :: height

text \<open>\<^verbatim>\<open>chain_state::data\<close>: the values found at those heights.\<close>

record chain_state_data =
  data_height :: height
  data_hash :: hash_digest
  data_bits_self :: "32 word"
  data_bits_ordered :: "32 word list"
  data_version_self :: "32 word"
  data_version_ordered :: "32 word list"
  data_timestamp_self :: "32 word"
  data_timestamp_retarget :: "32 word"
  data_timestamp_ordered :: "32 word list"
  allow_collisions_hash :: hash_digest

record chain_state =
  state_data :: chain_state_data
  state_checkpoints :: "(nat \<times> hash_digest) list"
  state_forks :: "32 word"
  state_stale_seconds :: "32 word"

text \<open>
  The fast-chain reader, as far as population uses it. A getter of the interface
  returns a flag and writes its out-parameter; here it returns the value when the flag is
  true, and \<open>None\<close> otherwise.
\<close>

record fast_chain =
  chain_get_block_height :: "bool \<Rightarrow> height option"
  chain_get_block_hash :: "height \<Rightarrow> bool \<Rightarrow> hash_digest option"
  chain_get_bits :: "height \<Rightarrow> bool \<Rightarrow> 32 word option"
  chain_get_version :: "height \<Rightarrow> bool \<Rightarrow> 32 word option"
  chain_get_timestamp :: "height \<Rightarrow> bool \<Rightarrow> 32 word option"

text \<open>
  A header of a branch with the chain state its validation metadata may carry, and the
  header branch through the operations population calls on it.
\<close>

record branch_header =
  entry_header :: header
  validation_state :: "chain_state option"

record header_branch =
  branch_empty :: bool
  branch_top :: branch_header
  branch_top_parent :: "branch_header option"
  branch_top_height :: height
  branch_get_block_hash :: "height \<Rightarrow> hash_digest option"
  branch_get_bits :: "height \<Rightarrow> 32 word option"
  branch_get_version :: "height \<Rightarrow> 32 word option"
  branch_get_timestamp :: "height \<Rightarrow> 32 word option"

text \<open>
  The populator object. \<open>get_map\<close>, \<open>promote\<close> (the chain-state constructor from a
  parent state and a header) and \<open>hash_of_header\<close> belong to the base library.
\<close>

record populate_chain_state =
  checkpoints_sorted :: "(nat \<times> hash_digest) list"
  forks :: "32 word"
  stale_seconds :: "32 word"
  chain :: fast_chain
  get_map :: "height \<Rightarrow> (nat \<times> hash_digest) list \<Rightarrow> 32 word \<Rightarrow> chain_state_map"
  promote :: "chain_state \<Rightarrow> header \<Rightarrow> chain_state"
  hash_of_header :: "header \<Rightarrow> hash_digest"

text \<open>
  Every call that reaches the fast-chain reader is recorded: which attribute, at which
  height, against which index. A population function takes the record so far and returns
  it extended.
\<close>

datatype attribute = Bits | Version | Timestamp | Block_hash

type_synonym query = "attribute \<times> height \<times> bool"

definition get_bits ::
  "populate_chain_state \<Rightarrow> height \<Rightarrow> header_branch \<Rightarrow> bool \<Rightarrow> query list
     \<Rightarrow> 32 word option \<times> query list" where
  "get_bits pcs h branch blk log =
     (case branch_get_bits branch h of
        Some b \<Rightarrow> (Some b, log)
      | None \<Rightarrow> (chain_get_bits (chain pcs) h blk, log @ [(Bits, h, blk)]))"

definition get_version ::
  "populate_chain_state \<Rightarrow> height \<Rightarrow> header_branch \<Rightarrow> bool \<Rightarrow> query list
     \<Rightarrow> 32 word option \<times> query list" where
  "get_version pcs h branch blk log =
     (case branch_get_version branch h of
        Some b \<Rightarrow> (Some b, log)
      | None \<Rightarrow> (chain_get_version (chain pcs) h blk, log @ [(Version, h, blk)]))"

definition get_timestamp ::
  "populate_chain_state \<Rightarrow> height \<Rightarrow> header_branch \<Rightarrow> bool \<Rightarrow> query list
     \<Rightarrow> 32 word option \<times> query list" where
  "get_timestamp pcs h branch blk log =
     (case branch_get_timestamp branch h of
        Some b \<Rightarrow> (Some b, log)
      | None \<Rightarrow> (chain_get_timestamp (chain pcs) h blk, log @ [(Timestamp, h, blk)]))"

definition get_block_hash ::
  "populate_chain_state \<Rightarrow> height \<Rightarrow> header_branch \<Rightarrow> bool \<Rightarrow> query list
     \<Rightarrow> hash_digest option \<times> query list" where
  "get_block_hash pcs h branch blk log =
     (case branch_get_block_hash branch h of
        Some b \<Rightarrow> (Some b, log)
      | None \<Rightarrow> (chain_get_block_hash (chain pcs) h blk, log @ [(Block_hash, h, blk)]))"

text \<open>\<^verbatim>\<open>std::vector::resize\<close>: cut to the size, or extend with zeros.\<close>

definition resize :: "nat \<Rightarrow> 32 word list \<Rightarrow> 32 word list" where
  "resize n xs = take n xs @ replicate (n - length xs) 0"

text \<open>
  The loop shared by the three ordered vectors: for each slot in turn, increment the
  height and fetch into the slot, leaving at the first failure. The result is the flag,
  the vector as the loop leaves it, and the record of reader calls.
\<close>

fun fill_ordered ::
  "(height \<Rightarrow> query list \<Rightarrow> 32 word option \<times> query list) \<Rightarrow> height \<Rightarrow> 32 word list
     \<Rightarrow> query list \<Rightarrow> bool \<times> 32 word list \<times> query list" where
  "fill_ordered get h [] log = (True, [], log)"
| "fill_ordered get h (slot # slots) log =
     (case get (h + 1) log of
        (None, log') \<Rightarrow> (False, slot # slots, log')
      | (Some x, log') \<Rightarrow>
          (case fill_ordered get (h + 1) slots log' of
             (ok, rest, log'') \<Rightarrow> (ok, x # rest, log'')))"

definition populate_bits ::
  "populate_chain_state \<Rightarrow> chain_state_data \<Rightarrow> chain_state_map \<Rightarrow> header_branch \<Rightarrow> bool
     \<Rightarrow> query list \<Rightarrow> bool \<times> chain_state_data \<times> query list" where
  "populate_bits pcs data m branch blk log =
     (case fill_ordered (\<lambda>h. get_bits pcs h branch blk) (bits_high m - bits_count m)
             (resize (unat (bits_count m)) (data_bits_ordered data)) log of
        (ok, filled, log') \<Rightarrow>
          if \<not> ok then (False, data\<lparr>data_bits_ordered := filled\<rparr>, log')
          else (case get_bits pcs (bits_self m) branch blk log' of
                  (None, log'') \<Rightarrow> (False, data\<lparr>data_bits_ordered := filled\<rparr>, log'')
                | (Some x, log'') \<Rightarrow>
                    (True, data\<lparr>data_bits_ordered := filled, data_bits_self := x\<rparr>, log'')))"

definition populate_versions ::
  "populate_chain_state \<Rightarrow> chain_state_data \<Rightarrow> chain_state_map \<Rightarrow> header_branch \<Rightarrow> bool
     \<Rightarrow> query list \<Rightarrow> bool \<times> chain_state_data \<times> query list" where
  "populate_versions pcs data m branch blk log =
     (case fill_ordered (\<lambda>h. get_version pcs h branch blk) (version_high m - version_count m)
             (resize (unat (version_count m)) (data_version_ordered data)) log of
        (ok, filled, log') \<Rightarrow>
          if \<not> ok then (False, data\<lparr>data_version_ordered := filled\<rparr>, log')
          else (case get_version pcs (version_self m) branch blk log' of
                  (None, log'') \<Rightarrow> (False, data\<lparr>data_version_ordered := filled\<rparr>, log'')
                | (Some x, log'') \<Rightarrow>
                    (True, data\<lparr>data_version_ordered := filled, data_version_self := x\<rparr>,
                     log'')))"

definition populate_timestamps ::
  "populate_chain_state \<Rightarrow> chain_state_data \<Rightarrow> chain_state_map \<Rightarrow> header_branch \<Rightarrow> bool
     \<Rightarrow> query list \<Rightarrow> bool \<times> chain_state_data \<times> query list" where
  "populate_timestamps pcs data m branch blk log =
     (let data0 = data\<lparr>data_timestamp_retarget := unspecified_timestamp\<rparr> in
      case fill_ordered (\<lambda>h. get_timestamp pcs h branch blk)
             (timestamp_high m - timestamp_count m)
             (resize (unat (timestamp_count m)) (data_timestamp_ordered data0)) log of
        (ok, filled, log1) \<Rightarrow>
          (let data1 = data0\<lparr>data_timestamp_ordered := filled\<rparr> in
           if \<not> ok then (False, data1, log1)
           else
             (case (if timestamp_retarget m \<noteq> unrequested
                    then (case get_timestamp pcs (timestamp_retarget m) branch blk log1 of
                            (None, log2) \<Rightarrow> (False, data1, log2)
                          | (Some x, log2) \<Rightarrow>
                              (True, data1\<lparr>data_timestamp_retarget := x\<rparr>, log2))
                    else (True, data1, log1)) of
                (ok2, data2, log2) \<Rightarrow>
                  if \<not> ok2 then (False, data2, log2)
                  else (case get_timestamp pcs (timestamp_self m) branch blk log2 of
                          (None, log3) \<Rightarrow> (False, data2, log3)
                        | (Some x, log3) \<Rightarrow>
                            (True, data2\<lparr>data_timestamp_self := x\<rparr>, log3)))))"

definition populate_checkpoint ::
  "populate_chain_state \<Rightarrow> chain_state_data \<Rightarrow> chain_state_map \<Rightarrow> header_branch \<Rightarrow> bool
     \<Rightarrow> query list \<Rightarrow> bool \<times> chain_state_data \<times> query list" where
  "populate_checkpoint pcs data m branch blk log =
     (if allow_collisions_height m = unrequested
        then (True, data\<lparr>allow_collisions_hash := null_hash\<rparr>, log)
      else (case get_block_hash pcs (allow_collisions_height m) branch blk log of
              (None, log') \<Rightarrow> (False, data, log')
            | (Some x, log') \<Rightarrow> (True, data\<lparr>allow_collisions_hash := x\<rparr>, log')))"

text \<open>\<^verbatim>\<open>populate_all\<close>: the four steps joined by the short-circuit conjunction.\<close>

definition populate_all ::
  "populate_chain_state \<Rightarrow> chain_state_data \<Rightarrow> header_branch \<Rightarrow> bool \<Rightarrow> query list
     \<Rightarrow> bool \<times> chain_state_data \<times> query list" where
  "populate_all pcs data branch blk log =
     (let m = get_map pcs (data_height data) (checkpoints_sorted pcs) (forks pcs) in
      case populate_bits pcs data m branch blk log of
        (ok1, data1, log1) \<Rightarrow>
          if \<not> ok1 then (False, data1, log1)
          else (case populate_versions pcs data1 m branch blk log1 of
                  (ok2, data2, log2) \<Rightarrow>
                    if \<not> ok2 then (False, data2, log2)
                    else (case populate_timestamps pcs data2 m branch blk log2 of
                            (ok3, data3, log3) \<Rightarrow>
                              if \<not> ok3 then (False, data3, log3)
                              else populate_checkpoint pcs data3 m branch blk log3)))"

text \<open>A default-constructed \<^verbatim>\<open>chain_state::data\<close> with the hash and the height set.\<close>

definition fresh_data :: "hash_digest \<Rightarrow> height \<Rightarrow> chain_state_data" where
  "fresh_data h n =
     \<lparr>data_height = n, data_hash = h,
      data_bits_self = 0, data_bits_ordered = [],
      data_version_self = 0, data_version_ordered = [],
      data_timestamp_self = 0, data_timestamp_retarget = 0, data_timestamp_ordered = [],
      allow_collisions_hash = 0\<rparr>"

definition make_chain_state :: "populate_chain_state \<Rightarrow> chain_state_data \<Rightarrow> chain_state" where
  "make_chain_state pcs data =
     \<lparr>state_data = data, state_checkpoints = checkpoints_sorted pcs,
      state_forks = forks pcs, state_stale_seconds = stale_seconds pcs\<rparr>"

text \<open>
  \<^verbatim>\<open>populate(branch)\<close>: the state returned (\<open>None\<close> is the null pointer), the state
  stored on the top header when the parent's state is promoted, and the reader calls.
  \<open>parent_state\<close> is the state the top's parent carries, if there is a parent and it
  carries one.
\<close>

definition parent_state :: "header_branch \<Rightarrow> chain_state option" where
  "parent_state branch =
     (case branch_top_parent branch of
        None \<Rightarrow> None
      | Some parent \<Rightarrow> validation_state parent)"

definition populate_branch ::
  "populate_chain_state \<Rightarrow> header_branch \<Rightarrow> query list
     \<Rightarrow> chain_state option \<times> chain_state option \<times> query list" where
  "populate_branch pcs branch log =
     (if branch_empty branch then (None, None, log)
      else
        (case parent_state branch of
           Some promoted \<Rightarrow>
             (let st = promote pcs promoted (entry_header (branch_top branch))
              in (Some st, Some st, log))
         | None \<Rightarrow>
             (case populate_all pcs
                     (fresh_data (hash_of_header pcs (entry_header (branch_top branch)))
                        (branch_top_height branch))
                     branch False log of
                (ok, data, log') \<Rightarrow>
                  if \<not> ok then (None, None, log')
                  else (Some (make_chain_state pcs data), None, log'))))"

section \<open>Block population (populate_block.cpp)\<close>

text \<open>
  What population reads of a block's chain state, and the populator with the dispatcher's
  size, the staleness of the block index and the reader's \<^verbatim>\<open>chain_state(block)\<close>.
\<close>

record block_state =
  is_under_checkpoint :: bool
  allow_collisions_enabled :: bool
  enabled_forks :: "32 word"

record populate_block =
  dispatch_size :: nat
  is_blocks_stale :: bool
  chain_state_of :: "block \<Rightarrow> block_state option"

text \<open>
  Population writes validation metadata: directly on the coinbase input, and through
  the reader's \<^verbatim>\<open>populate_transaction\<close> and \<^verbatim>\<open>populate_output\<close>. Each write is recorded
  with the position of its target in the block: the transaction position, and for an
  output point the transaction position and the input index of the input that holds it.
\<close>

datatype call =
    Coinbase_metadata
  | Populate_transaction nat "32 word" nat
  | Populate_output nat nat nat

text \<open>
  \<^verbatim>\<open>block::total_non_coinbase_inputs\<close> of the base library: the inputs of all
  transactions after the first.
\<close>

definition total_non_coinbase_inputs :: "block \<Rightarrow> nat" where
  "total_non_coinbase_inputs blk = sum_list (map (\<lambda>tx. length (inputs tx)) (tl (transactions blk)))"

text \<open>
  \<^verbatim>\<open>populate_coinbase\<close> reads the first input of the first transaction; \<open>None\<close> when
  there is none.
\<close>

definition populate_coinbase :: "block \<Rightarrow> block_state \<Rightarrow> nat \<Rightarrow> call list option" where
  "populate_coinbase blk st fork_height =
     (case transactions blk of
        [] \<Rightarrow> None
      | coinbase # _ \<Rightarrow>
          if inputs coinbase = [] then None
          else Some [Coinbase_metadata, Populate_transaction 0 (enabled_forks st) fork_height])"

text \<open>
  The per-transaction loop of a bucket, from \<open>position\<close> on in steps of the bucket
  count, which is \<open>Suc k\<close>: the code asserts it positive. The step of the code saturates
  at the largest \<^verbatim>\<open>size_t\<close>, which no vector size reaches, so it leaves the loop
  where the plain sum does.
\<close>

function tx_pass :: "32 word \<Rightarrow> nat \<Rightarrow> nat \<Rightarrow> nat \<Rightarrow> nat \<Rightarrow> call list" where
  "tx_pass fks fork_height position k count =
     (if position < count
      then Populate_transaction position fks fork_height
             # tx_pass fks fork_height (position + Suc k) k count
      else [])"
  by pat_completeness auto
termination
  by (relation "measure (\<lambda>(fks, fork_height, position, k, count). count - position)") auto

declare tx_pass.simps [simp del]

text \<open>
  The per-input loops of a bucket. \<open>input_position\<close> counts the non-coinbase inputs of
  the block across transactions; the inner loop returns it for the next transaction.
\<close>

fun input_loop ::
  "nat \<Rightarrow> nat \<Rightarrow> nat \<Rightarrow> nat \<Rightarrow> input list \<Rightarrow> nat \<Rightarrow> nat \<Rightarrow> call list \<times> nat" where
  "input_loop fork_height bucket buckets tx_position [] input_index input_position =
     ([], input_position)"
| "input_loop fork_height bucket buckets tx_position (inp # rest) input_index input_position =
     (case input_loop fork_height bucket buckets tx_position rest
             (Suc input_index) (Suc input_position) of
        (calls, p) \<Rightarrow>
          (if input_position mod buckets \<noteq> bucket then calls
           else Populate_output tx_position input_index fork_height # calls, p))"

fun output_pass ::
  "nat \<Rightarrow> nat \<Rightarrow> nat \<Rightarrow> transaction list \<Rightarrow> nat \<Rightarrow> nat \<Rightarrow> call list" where
  "output_pass fork_height bucket buckets [] tx_position input_position = []"
| "output_pass fork_height bucket buckets (tx # txs) tx_position input_position =
     (case input_loop fork_height bucket buckets tx_position (inputs tx) 0 input_position of
        (calls, p) \<Rightarrow> calls @ output_pass fork_height bucket buckets txs (Suc tx_position) p)"

text \<open>
  \<^verbatim>\<open>populate_transactions\<close> for one bucket: the writes it makes, in order; it then
  completes with success. \<open>None\<close> when the asserted \<open>bucket < buckets\<close> fails or the
  block has no transaction to skip.
\<close>

definition populate_transactions ::
  "populate_block \<Rightarrow> block \<Rightarrow> block_state \<Rightarrow> nat \<Rightarrow> nat \<Rightarrow> nat \<Rightarrow> call list option" where
  "populate_transactions pb blk st fork_height bucket buckets =
     (if \<not> bucket < buckets \<or> transactions blk = [] then None
      else
        (let txs = transactions blk;
             first = (if bucket = 0 then buckets else bucket)
         in Some
              ((if \<not> is_blocks_stale pb \<or> \<not> allow_collisions_enabled st
                then tx_pass (enabled_forks st) fork_height first (buckets - 1) (length txs)
                else [])
               @ output_pass fork_height bucket buckets (tl txs) 1 0)))"

text \<open>
  \<^verbatim>\<open>populate\<close>: the codes handed to the result handler, the writes made before the
  buckets start, and the writes of each bucket. The buckets run concurrently; the
  handler is joined over their completions.
\<close>

record populate_result =
  handled :: "code list"
  coinbase_calls :: "call list"
  bucket_calls :: "call list list"

definition populate ::
  "populate_block \<Rightarrow> block \<Rightarrow> nat \<Rightarrow> populate_result option" where
  "populate pb blk fork_height =
     (case chain_state_of pb blk of
        None \<Rightarrow> Some \<lparr>handled = [Operation_failed], coinbase_calls = [], bucket_calls = []\<rparr>
      | Some st \<Rightarrow>
          if is_under_checkpoint st
            then Some \<lparr>handled = [Success], coinbase_calls = [], bucket_calls = []\<rparr>
          else
            (case populate_coinbase blk st fork_height of
               None \<Rightarrow> None
             | Some cc \<Rightarrow>
                 (let non_coinbase_inputs = total_non_coinbase_inputs blk in
                  if non_coinbase_inputs = 0
                    then Some \<lparr>handled = [Success], coinbase_calls = cc, bucket_calls = []\<rparr>
                  else
                    (let buckets = min (dispatch_size pb) non_coinbase_inputs;
                         runs = map (\<lambda>bucket. populate_transactions pb blk st fork_height
                                        bucket buckets) [0 ..< buckets]
                     in Some
                          \<lparr>handled = (case synchronize (map (map_option (\<lambda>calls. Success)) runs) of
                                        None \<Rightarrow> [] | Some ec \<Rightarrow> [ec]),
                           coinbase_calls = cc,
                           bucket_calls = map (\<lambda>r. case r of None \<Rightarrow> [] | Some calls \<Rightarrow> calls)
                                            runs\<rparr>))))"

text \<open>
  The place of input \<open>i\<close> of the transaction at position \<open>t\<close> among the non-coinbase
  inputs of the block, counted from zero.
\<close>

definition input_position_of :: "transaction list \<Rightarrow> nat \<Rightarrow> nat \<Rightarrow> nat" where
  "input_position_of txs t i =
     sum_list (map (\<lambda>tx. length (inputs tx)) (take (t - 1) (tl txs))) + i"

text \<open>
  A call writes the validation metadata of input \<open>i\<close> of the transaction at position
  \<open>t\<close> when it is the write on the coinbase input and the input is that one, or when it
  populates the output point that input holds. \<open>record_writes\<close> counts such calls over
  a whole run: the coinbase step and every bucket.
\<close>

fun writes_record :: "nat \<Rightarrow> nat \<Rightarrow> call \<Rightarrow> bool" where
  "writes_record t i Coinbase_metadata = (t = 0 \<and> i = 0)"
| "writes_record t i (Populate_output t' i' fork_height) = (t' = t \<and> i' = i)"
| "writes_record t i (Populate_transaction t' fks fork_height) = False"

definition record_writes :: "populate_result \<Rightarrow> nat \<Rightarrow> nat \<Rightarrow> nat" where
  "record_writes res t i =
     length (filter (writes_record t i) (coinbase_calls res @ concat (bucket_calls res)))"

section \<open>The specification's wording of the retarget\<close>

text \<open>
  The work required at a height as the specification words it, over the natural numbers:
  the previous bits off a retarget height; at one, the elapsed time of the last 2016
  blocks clamped between a quarter of and four times two weeks (1209600 seconds), times
  the previous target, divided by two weeks, capped at the maximal target, in compact
  form. The product is taken in 256 bits.
\<close>

definition clamp_timespan :: "nat \<Rightarrow> nat" where
  "clamp_timespan actual = max 302400 (min 4838400 actual)"

definition retarget_spec :: "nat \<Rightarrow> nat \<Rightarrow> nat \<Rightarrow> nat" where
  "retarget_spec previous_target actual maximal =
     min maximal ((previous_target * clamp_timespan actual) mod 2 ^ 256 div 1209600)"

definition work_required_spec :: "validate_block \<Rightarrow> chain_lib \<Rightarrow> 32 word" where
  "work_required_spec v lib =
     (if block_height v = 0 then 0x1d00ffff
      else if block_height v mod 2016 \<noteq> 0 then previous_block_bits v
      else compact lib
             (of_nat (retarget_spec (unat (snd (set_compact lib (previous_block_bits v))))
                        (unat (actual_timespan v 2016)) (unat (max_target lib)))))"

section \<open>Sample validator data\<close>

text \<open>
  Stand-ins for the base library, enough to run the validator on small blocks: a script
  number is its minimal little-endian bytes (with a zero byte appended when the top bit
  is set), a push of up to 75 bytes serializes to its length and its bytes, and any other
  operation to its opcode. Hashes, compact targets and the merkle root are simple
  functions in place of the real ones.
\<close>

function sample_number_bytes :: "nat \<Rightarrow> data_chunk" where
  "sample_number_bytes n =
     (if n = 0 then [] else of_nat (n mod 256) # sample_number_bytes (n div 256))"
  by pat_completeness auto
termination
  by (relation "measure (\<lambda>n. n)") auto

definition sample_script_number_data :: "nat \<Rightarrow> data_chunk" where
  "sample_script_number_data n =
     (let bytes = sample_number_bytes n
      in if bytes \<noteq> [] \<and> last bytes \<ge> 0x80 then bytes @ [0] else bytes)"

definition sample_script_to_data :: "script \<Rightarrow> data_chunk" where
  "sample_script_to_data s =
     concat (map (\<lambda>operation.
         if op_code operation = special
         then of_nat (length (op_data operation)) # op_data operation
         else [op_code operation]) (operations s))"

definition sample_is_coinbase :: "transaction \<Rightarrow> bool" where
  "sample_is_coinbase tx =
     (length (inputs tx) = 1 \<and> point_hash (previous_output (hd (inputs tx))) = 0)"

definition sample_lib :: chain_lib where
  "sample_lib =
     \<lparr>transaction_hash = sample_tx_hash,
      header_hash = (\<lambda>hdr. ucast (nonce hdr)),
      serialized_size = (\<lambda>blk. 80 + 100 * length (transactions blk)),
      is_coinbase = sample_is_coinbase,
      check_transaction = (\<lambda>tx. Success),
      generate_merkle_root = (\<lambda>txs. sum_list (map sample_tx_hash txs)),
      set_compact = (\<lambda>b. (True, ucast b)),
      compact = ucast,
      max_target = 0x1d00ffff,
      set_hash = (\<lambda>h. h),
      is_final = (\<lambda>tx h ts. True),
      checkpoint_validate = (\<lambda>h n cps. True),
      validate_consensus = (\<lambda>s tx i hdr h. True),
      script_type = (\<lambda>s. Other_payment_type),
      script_from_data = (\<lambda>d. Some \<lparr>operations = []\<rparr>),
      script_to_data = sample_script_to_data,
      script_number_data = sample_script_number_data\<rparr>"

text \<open>A coinbase whose input script is the given operations.\<close>

definition sample_coinbase :: "operation list \<Rightarrow> transaction" where
  "sample_coinbase ops =
     \<lparr>tx_version = 1, locktime = 0,
      inputs = [\<lparr>previous_output = \<lparr>point_hash = 0, point_index = 0xffffffff\<rparr>,
                 input_script = \<lparr>operations = ops\<rparr>, sequence = - 1\<rparr>],
      outputs = [\<lparr>output_value = 5000000000, output_script = \<lparr>operations = []\<rparr>\<rparr>]\<rparr>"

text \<open>
  A transaction with one output, and one that spends output \<open>i\<close> of the transaction
  whose hash is \<open>h\<close>.
\<close>

definition sample_funding :: transaction where
  "sample_funding =
     \<lparr>tx_version = 1, locktime = 7, inputs = [],
      outputs = [\<lparr>output_value = 1000, output_script = \<lparr>operations = []\<rparr>\<rparr>]\<rparr>"

definition sample_spend :: "hash_digest \<Rightarrow> 32 word \<Rightarrow> transaction" where
  "sample_spend h i =
     \<lparr>tx_version = 1, locktime = 20,
      inputs = [\<lparr>previous_output = \<lparr>point_hash = h, point_index = i\<rparr>,
                 input_script = \<lparr>operations = []\<rparr>, sequence = - 1\<rparr>],
      outputs = [\<lparr>output_value = 900, output_script = \<lparr>operations = []\<rparr>\<rparr>]\<rparr>"

definition sample_header :: "32 word \<Rightarrow> transaction list \<Rightarrow> header" where
  "sample_header b txs =
     \<lparr>version = 2, previous_block_hash = 0, merkle = sum_list (map sample_tx_hash txs),
      timestamp = 1, bits = b, nonce = 0\<rparr>"

text \<open>
  A validator at a height over a block, never stopped, on a chain that holds the sample
  funding transaction at height 5 with its output unspent.
\<close>

definition sample_validator :: "nat \<Rightarrow> block \<Rightarrow> validate_block" where
  "sample_validator h blk =
     \<lparr>block_height = h, current_block = blk, checkpoints = [],
      stop_callback = (\<lambda>n. False),
      actual_timespan = (\<lambda>interval. 1209600),
      fetch_block = (\<lambda>n. sample_header 0x1d00ffff []),
      fetch_transaction =
        (\<lambda>h. if h = sample_tx_hash sample_funding then Some (sample_funding, 5) else None),
      is_output_spent = (\<lambda>point. False),
      is_output_spent_by = (\<lambda>point index_in_parent input_index. False),
      median_time_past = 0,
      previous_block_bits = 0x1d00ffff,
      transaction_exists = (\<lambda>h. False),
      current_time = 1500000000\<rparr>"

definition sample_block_of :: "32 word \<Rightarrow> transaction list \<Rightarrow> block" where
  "sample_block_of b txs = \<lparr>block_header = sample_header b txs, transactions = txs\<rparr>"

section \<open>The specification's wording of the coinbase height rule\<close>




section \<open>The specification's wording of chain-state population\<close>

text \<open>
  The attributes a map requires, each with its height: the ordered ranges (the range of
  \<open>count\<close> heights that ends at \<open>high\<close>), the values at the state's own height, the
  retarget timestamp and the collision checkpoint hash when requested.
\<close>

definition range_heights :: "height \<Rightarrow> height \<Rightarrow> height list" where
  "range_heights high count = map (\<lambda>i. high - count + 1 + of_nat i) [0 ..< unat count]"

definition required :: "chain_state_map \<Rightarrow> (attribute \<times> height) list" where
  "required m =
     map (Pair Bits) (range_heights (bits_high m) (bits_count m) @ [bits_self m])
     @ map (Pair Version) (range_heights (version_high m) (version_count m) @ [version_self m])
     @ map (Pair Timestamp)
         (range_heights (timestamp_high m) (timestamp_count m)
          @ (if timestamp_retarget m \<noteq> unrequested then [timestamp_retarget m] else [])
          @ [timestamp_self m])
     @ (if allow_collisions_height m \<noteq> unrequested
        then [(Block_hash, allow_collisions_height m)] else [])"

text \<open>
  What the branch, and what the reader, has for an attribute at a height; \<open>found\<close> is
  the branch's value when the branch covers the height and the reader's otherwise.
\<close>

datatype attribute_value = Word32 "32 word" | Hash hash_digest

definition branch_value :: "header_branch \<Rightarrow> attribute \<Rightarrow> height \<Rightarrow> attribute_value option" where
  "branch_value branch a h =
     (case a of
        Bits \<Rightarrow> map_option Word32 (branch_get_bits branch h)
      | Version \<Rightarrow> map_option Word32 (branch_get_version branch h)
      | Timestamp \<Rightarrow> map_option Word32 (branch_get_timestamp branch h)
      | Block_hash \<Rightarrow> map_option Hash (branch_get_block_hash branch h))"

definition chain_value :: "fast_chain \<Rightarrow> bool \<Rightarrow> attribute \<Rightarrow> height \<Rightarrow> attribute_value option" where
  "chain_value fc blk a h =
     (case a of
        Bits \<Rightarrow> map_option Word32 (chain_get_bits fc h blk)
      | Version \<Rightarrow> map_option Word32 (chain_get_version fc h blk)
      | Timestamp \<Rightarrow> map_option Word32 (chain_get_timestamp fc h blk)
      | Block_hash \<Rightarrow> map_option Hash (chain_get_block_hash fc h blk))"

definition found ::
  "populate_chain_state \<Rightarrow> header_branch \<Rightarrow> bool \<Rightarrow> attribute \<Rightarrow> height
     \<Rightarrow> attribute_value option" where
  "found pcs branch blk a h =
     (case branch_value branch a h of
        Some x \<Rightarrow> Some x
      | None \<Rightarrow> chain_value (chain pcs) blk a h)"

definition available ::
  "populate_chain_state \<Rightarrow> header_branch \<Rightarrow> bool \<Rightarrow> attribute \<times> height \<Rightarrow> bool" where
  "available pcs branch blk r =
     (branch_value branch (fst r) (snd r) \<noteq> None
      \<or> chain_value (chain pcs) blk (fst r) (snd r) \<noteq> None)"

text \<open>A reader call that is made for a height the branch does not cover.\<close>

definition beyond_branch :: "header_branch \<Rightarrow> bool \<Rightarrow> query \<Rightarrow> bool" where
  "beyond_branch branch blk q =
     (branch_value branch (fst q) (fst (snd q)) = None \<and> snd (snd q) = blk)"

text \<open>
  A state's data holds, for every attribute the map requires, the value found for it;
  what is not requested holds its default.
\<close>

definition fully_populated ::
  "populate_chain_state \<Rightarrow> header_branch \<Rightarrow> bool \<Rightarrow> chain_state_map \<Rightarrow> chain_state_data
     \<Rightarrow> bool" where
  "fully_populated pcs branch blk m d =
     (map (\<lambda>x. Some (Word32 x)) (data_bits_ordered d)
        = map (found pcs branch blk Bits) (range_heights (bits_high m) (bits_count m))
      \<and> Some (Word32 (data_bits_self d)) = found pcs branch blk Bits (bits_self m)
      \<and> map (\<lambda>x. Some (Word32 x)) (data_version_ordered d)
        = map (found pcs branch blk Version) (range_heights (version_high m) (version_count m))
      \<and> Some (Word32 (data_version_self d)) = found pcs branch blk Version (version_self m)
      \<and> map (\<lambda>x. Some (Word32 x)) (data_timestamp_ordered d)
        = map (found pcs branch blk Timestamp)
            (range_heights (timestamp_high m) (timestamp_count m))
      \<and> Some (Word32 (data_timestamp_self d)) = found pcs branch blk Timestamp (timestamp_self m)
      \<and> (if timestamp_retarget m \<noteq> unrequested
         then Some (Word32 (data_timestamp_retarget d))
                = found pcs branch blk Timestamp (timestamp_retarget m)
         else data_timestamp_retarget d = unspecified_timestamp)
      \<and> (if allow_collisions_height m \<noteq> unrequested
         then Some (Hash (allow_collisions_hash d))
                = found pcs branch blk Block_hash (allow_collisions_height m)
         else allow_collisions_hash d = null_hash))"

text \<open>The 32-bit word of a found value, when it is one.\<close>

definition value32 :: "attribute_value option \<Rightarrow> 32 word option" where
  "value32 v = (case v of Some (Word32 x) \<Rightarrow> Some x | _ \<Rightarrow> None)"

section \<open>Sample chain-state data\<close>

text \<open>
  An index that holds the heights up to 10, and a branch of two headers above it, at
  heights 11 and 12. The sample map asks for the bits and the timestamps of the two
  heights before the state's own, the version of the one before, and the values at the
  state's own height.
\<close>

definition sample_fast_chain :: "height \<Rightarrow> fast_chain" where
  "sample_fast_chain tip =
     \<lparr>chain_get_block_height = (\<lambda>blk. Some tip),
      chain_get_block_hash = (\<lambda>h blk. if h \<le> tip then Some (ucast h + 1000) else None),
      chain_get_bits = (\<lambda>h blk. if h \<le> tip then Some 0x1d00ffff else None),
      chain_get_version = (\<lambda>h blk. if h \<le> tip then Some 2 else None),
      chain_get_timestamp = (\<lambda>h blk. if h \<le> tip then Some (ucast h * 600) else None)\<rparr>"

definition sample_map :: "height \<Rightarrow> chain_state_map" where
  "sample_map h =
     \<lparr>bits_high = h - 1, bits_count = 2, bits_self = h,
      version_high = h - 1, version_count = 1, version_self = h,
      timestamp_high = h - 1, timestamp_count = 2, timestamp_self = h,
      timestamp_retarget = unrequested, allow_collisions_height = unrequested\<rparr>"

definition sample_populator :: "fast_chain \<Rightarrow> populate_chain_state" where
  "sample_populator fc =
     \<lparr>checkpoints_sorted = [], forks = 0, stale_seconds = 0, chain = fc,
      get_map = (\<lambda>h cps fks. sample_map h),
      promote = (\<lambda>st hdr. st\<lparr>state_data :=
                   (state_data st)\<lparr>data_height := data_height (state_data st) + 1,
                                   data_bits_self := bits hdr\<rparr>\<rparr>),
      hash_of_header = (\<lambda>hdr. ucast (nonce hdr))\<rparr>"

definition sample_branch_header :: "32 word \<Rightarrow> header" where
  "sample_branch_header n =
     \<lparr>version = 2, previous_block_hash = 0, merkle = 0, timestamp = 600 * n,
      bits = 0x1d00ffff, nonce = n\<rparr>"

definition sample_branch :: "bool \<Rightarrow> chain_state option \<Rightarrow> header_branch" where
  "sample_branch is_empty st =
     \<lparr>branch_empty = is_empty,
      branch_top = \<lparr>entry_header = sample_branch_header 12, validation_state = None\<rparr>,
      branch_top_parent =
        (if is_empty then None
         else Some \<lparr>entry_header = sample_branch_header 11, validation_state = st\<rparr>),
      branch_top_height = (if is_empty then 10 else 12),
      branch_get_block_hash =
        (\<lambda>h. if \<not> is_empty \<and> (h = 11 \<or> h = 12) then Some (ucast h) else None),
      branch_get_bits =
        (\<lambda>h. if \<not> is_empty \<and> (h = 11 \<or> h = 12) then Some 0x1d00ffff else None),
      branch_get_version =
        (\<lambda>h. if \<not> is_empty \<and> (h = 11 \<or> h = 12) then Some 2 else None),
      branch_get_timestamp =
        (\<lambda>h. if \<not> is_empty \<and> (h = 11 \<or> h = 12) then Some (600 * ucast h) else None)\<rparr>"

text \<open>A state such as the parent at height 11 may carry.\<close>

definition sample_state :: chain_state where
  "sample_state =
     \<lparr>state_data =
        \<lparr>data_height = 11, data_hash = 11,
         data_bits_self = 0x1d00ffff, data_bits_ordered = [0x1d00ffff, 0x1d00ffff],
         data_version_self = 2, data_version_ordered = [2],
         data_timestamp_self = 6600, data_timestamp_retarget = - 1,
         data_timestamp_ordered = [5400, 6000],
         allow_collisions_hash = 0\<rparr>,
      state_checkpoints = [], state_forks = 0, state_stale_seconds = 0\<rparr>"

section \<open>Sample population data\<close>

text \<open>
  A dispatcher of two worker slots over a chain whose state is above the checkpoints
  and has the collision fork enabled; a transaction with two inputs.
\<close>

definition sample_populate_block :: "bool \<Rightarrow> populate_block" where
  "sample_populate_block stale =
     \<lparr>dispatch_size = 2, is_blocks_stale = stale,
      chain_state_of = (\<lambda>blk. Some \<lparr>is_under_checkpoint = False,
                                 allow_collisions_enabled = True, enabled_forks = 0\<rparr>)\<rparr>"

definition sample_spend_two :: transaction where
  "sample_spend_two =
     \<lparr>tx_version = 1, locktime = 30,
      inputs = [\<lparr>previous_output = \<lparr>point_hash = 8, point_index = 0\<rparr>,
                 input_script = \<lparr>operations = []\<rparr>, sequence = - 1\<rparr>,
                \<lparr>previous_output = \<lparr>point_hash = 9, point_index = 1\<rparr>,
                 input_script = \<lparr>operations = []\<rparr>, sequence = - 1\<rparr>],
      outputs = [\<lparr>output_value = 900, output_script = \<lparr>operations = []\<rparr>\<rparr>]\<rparr>"

section \<open>Properties of the transaction pool\<close>

lemma call_confirm_left:
  "left_pool (call_confirm h ec p) = Some q \<Longrightarrow> buffer q = buffer p"
  by (cases h) (auto simp add: call_confirm_def left_pool_def fire_def)

lemma remove_if_rest_length:
  "left_pool (remove_if_rest h r i n p) = Some q \<Longrightarrow> length (buffer q) = length (buffer p)"
proof (induction n arbitrary: r i p)
  case 0
  then show ?case by (simp add: left_pool_def)
next
  case (Suc n)
  show ?case
  proof (cases "entry_hash (buffer p ! i) = h")
    case False
    then show ?thesis
      using Suc.prems Suc.IH [of "Suc r" "Suc i"
          "p\<lparr>buffer := (buffer p)[r := buffer p ! i, i := moved_from (buffer p ! i)]\<rparr>"]
      by (simp add: Let_def)
  next
    case True
    show ?thesis
    proof (cases "handle_confirm (buffer p ! i)")
      case None
      then show ?thesis
        using Suc.prems True
        by (simp add: Let_def call_confirm_def and_then_def left_pool_def)
    next
      case (Some k)
      then show ?thesis
        using Suc.prems True Suc.IH [of r "Suc i" "fire (Confirm k Success) p"]
        by (simp add: Let_def call_confirm_def and_then_def fire_def)
    qed
  qed
qed

text \<open>
  \<^verbatim>\<open>try_delete_tx\<close> never shortens the buffer: \<^verbatim>\<open>std::remove_if\<close> only rearranges, and
  nothing erases the tail it leaves.
\<close>

lemma try_delete_tx_length:
  assumes "left_pool (try_delete_tx h p) = Some q"
  shows "length (buffer q) = length (buffer p)"
proof (cases "stopped p \<or> find_if_index h (buffer p) = None")
  case True
  then have "try_delete_tx h p = Done p"
    by (auto simp add: try_delete_tx_def)
  then show ?thesis
    using assms by (simp add: left_pool_def)
next
  case False
  then obtain k where k: "find_if_index h (buffer p) = Some k" and run: "\<not> stopped p"
    by auto
  show ?thesis
  proof (cases "handle_confirm (buffer p ! k)")
    case None
    then show ?thesis
      using assms k run
      by (simp add: try_delete_tx_def call_confirm_def and_then_def left_pool_def)
  next
    case (Some c)
    then have "left_pool (remove_if_rest h k (Suc k) (length (buffer p) - Suc k)
                 (fire (Confirm c Success) p)) = Some q"
      using assms k run by (simp add: try_delete_tx_def call_confirm_def and_then_def)
    then show ?thesis
      using remove_if_rest_length by (fastforce simp add: fire_def)
  qed
qed

text \<open>
  C9. A call of \<^verbatim>\<open>store\<close> on a stopped pool returns the pool as it was: the buffer is
  unchanged, and neither the confirmation handler nor the validation handler is invoked
  (the log of invocations is unchanged).
\<close>

theorem store_when_stopped:
  "stopped p \<Longrightarrow> store env tx handle_confirm_new handle_validate p = Done p"
  by (simp add: store_def)

theorem store_when_stopped_witness:
  "stopped (sample_pool [sample_entry 6 10] True)
   \<and> store sample_pool_env (sample_tx 9) (Some 1) 2 (sample_pool [sample_entry 6 10] True)
       = Done (sample_pool [sample_entry 6 10] True)"
  using store_when_stopped [of "sample_pool [sample_entry 6 10] True" sample_pool_env
      "sample_tx 9" "Some 1" 2]
  by (simp add: stopped_def sample_pool_def)

text \<open>
  When every entry of the buffer holds a callable handler, a running pool that handles a
  reorganization event without error and with replaced blocks ends with an empty buffer,
  having called each entry's handler once with \<open>Blockchain_reorganized\<close>.
\<close>

lemma confirm_each_callable:
  "list_all (\<lambda>entry. handle_confirm entry \<noteq> None) entries \<Longrightarrow>
     confirm_each ec entries p =
       Done (p\<lparr>fired := fired p
                @ map (\<lambda>entry. Confirm (the (handle_confirm entry)) ec) entries\<rparr>)"
  by (induction entries arbitrary: p) (auto simp add: call_confirm_def and_then_def fire_def)

lemma reorganize_invalidates_callable_pool:
  assumes "\<not> stopped p" and "replaced_blocks \<noteq> []"
    and "list_all (\<lambda>entry. handle_confirm entry \<noteq> None) (buffer p)"
  shows "reorganize env Success fork_point new_blocks replaced_blocks p =
           Done (p\<lparr>buffer := [],
                   fired := fired p
                     @ map (\<lambda>entry. Confirm (the (handle_confirm entry)) Blockchain_reorganized)
                         (buffer p),
                   subscriptions := Suc (subscriptions p)\<rparr>)"
  using assms
  by (simp add: reorganize_def invalidate_pool_def confirm_each_callable and_then_def
      resubscribe_def)

text \<open>
  C4. A running pool holds the entries for the sample transactions 7 and 8, with the
  handlers 10 and 11. A fork event without replaced blocks brings a block that contains
  transaction 7: handler 10 is called with success, the entry for 8 is moved to the
  front, and the slot it is moved from stays in the buffer with an empty handler. A
  reorganization with a replaced block follows: handler 11 is called with
  \<open>Blockchain_reorganized\<close>, the call of the empty handler throws, and the buffer is
  left as it was, not empty.
\<close>

theorem reorganize_after_extension_throws:
  "reorganize sample_pool_env Success 0 [sample_block [sample_tx 7]] []
     (sample_pool [sample_entry 7 10, sample_entry 8 11] False)
   = Done \<lparr>buffer = [sample_entry 8 11, moved_from (sample_entry 8 11)], capacity = 4,
           stopped_flag = False, fired = [Confirm 10 Success], subscriptions = 2\<rparr>
   \<and> reorganize sample_pool_env Success 0 [] [sample_block [sample_tx 5]]
       \<lparr>buffer = [sample_entry 8 11, moved_from (sample_entry 8 11)], capacity = 4,
        stopped_flag = False, fired = [Confirm 10 Success], subscriptions = 2\<rparr>
     = Bad_function_call
         \<lparr>buffer = [sample_entry 8 11, moved_from (sample_entry 8 11)], capacity = 4,
          stopped_flag = False,
          fired = [Confirm 10 Success, Confirm 11 Blockchain_reorganized],
          subscriptions = 3\<rparr>"
  by (simp add: reorganize_def delete_confirmed_def try_delete_tx_def invalidate_pool_def
      stopped_def fire_def call_confirm_def and_then_def resubscribe_def moved_from_def
      sample_pool_def sample_block_def sample_pool_env_def sample_entry_def sample_tx_def
      sample_tx_hash_def)

text \<open>
  C3. A running pool holds one entry, for the sample transaction 7 with handler 11. A
  fork event without replaced blocks brings a new block that contains that transaction.
  The entry's handler is fired with success, and the entry is still in the buffer
  afterwards: nothing has been removed.
\<close>

theorem delete_confirmed_keeps_entry:
  "reorganize sample_pool_env Success 0 [sample_block [sample_tx 7]] []
     (sample_pool [sample_entry 7 11] False)
   = Done \<lparr>buffer = [sample_entry 7 11], capacity = 4, stopped_flag = False,
           fired = [Confirm 11 Success], subscriptions = 2\<rparr>"
  by (simp add: reorganize_def delete_confirmed_def try_delete_tx_def stopped_def fire_def
      call_confirm_def and_then_def resubscribe_def
      sample_pool_def sample_block_def sample_pool_env_def sample_entry_def)

section \<open>Properties of the block validator\<close>

lemmas sample_defs = sample_validator_def sample_lib_def sample_block_of_def sample_header_def
  sample_coinbase_def sample_tx_def sample_tx_hash_def sample_is_coinbase_def sample_spend_def
  sample_funding_def

subsection \<open>connect_block\<close>

text \<open>
  Whatever the block and the chain, \<^verbatim>\<open>connect_block\<close> hands its completion handler
  only \<open>Service_stopped\<close> or \<open>Unknown\<close>: it never completes with success.
\<close>

lemma connect_block1_codes: "set (connect_block1 v ec n) \<subseteq> {Service_stopped, Unknown}"
  by (simp add: connect_block1_def)

lemma connect_block_codes: "set (connect_block v lib) \<subseteq> {Service_stopped, Unknown}"
  using connect_block1_codes
  by (auto simp add: connect_block_def split: prod.splits option.splits)

text \<open>
  C1. A block at height 300000 holds a coinbase and one transaction that spends the
  unspent output of a transaction on the chain. No transaction of the block exists on
  the chain, so the duplicate phase reports success; the per-input checks of
  \<^verbatim>\<open>validate_inputs\<close> pass for the spending transaction; the validator is never
  stopped. \<^verbatim>\<open>connect_block\<close> invokes the completion handler once, with \<open>Unknown\<close>,
  which is not a code of the error taxonomy, where success is due.
\<close>

theorem connect_block_completes_unknown:
  "bip30_phase
     (sample_validator 300000
        (sample_block_of 0x1d00ffff
           [sample_coinbase [\<lparr>op_code = special, op_data = [0xE0, 0x93, 0x04]\<rparr>],
            sample_spend 8 0]))
     sample_lib = Some Success
   \<and> validate_inputs
       (sample_validator 300000
          (sample_block_of 0x1d00ffff
             [sample_coinbase [\<lparr>op_code = special, op_data = [0xE0, 0x93, 0x04]\<rparr>],
              sample_spend 8 0]))
       sample_lib (sample_spend 8 0) 1 0 0 = Inr (True, 1000, 0)
   \<and> connect_block
       (sample_validator 300000
          (sample_block_of 0x1d00ffff
             [sample_coinbase [\<lparr>op_code = special, op_data = [0xE0, 0x93, 0x04]\<rparr>],
              sample_spend 8 0]))
       sample_lib = [Unknown]
   \<and> \<not> in_taxonomy Unknown"
  by (simp add: bip30_phase_def connect_block_def connect_block1_def validator_stopped_def
      check_spent_duplicate_def synchronize_def validate_inputs_def connect_input_def
      script_hash_signature_operations_count_def in_taxonomy_def
      bip30_exception_block1_def bip30_exception_block2_def
      max_block_script_sig_operations_def max_block_size_def max_money_def sample_defs)

subsection \<open>check_block\<close>

text \<open>
  The distinctness test of \<^verbatim>\<open>check_block\<close> holds exactly when no two neighbouring
  transactions have the same hash.
\<close>

lemma remdups_adj_same_length: "length (remdups_adj xs) = length xs \<longleftrightarrow> distinct_adj xs"
proof (induction xs rule: remdups_adj.induct)
  case (3 x y xs)
  have le: "length (remdups_adj (y # xs)) \<le> length (y # xs)"
    by (rule remdups_adj_length)
  show ?case
  proof (cases "x = y")
    case True
    then show ?thesis using le by simp
  next
    case False
    then show ?thesis using 3 by simp
  qed
qed simp_all

lemma is_distinct_tx_set_adjacent:
  "is_distinct_tx_set lib txs \<longleftrightarrow> distinct_adj (map (transaction_hash lib) txs)"
  by (simp add: is_distinct_tx_set_def Let_def remdups_adj_same_length)

text \<open>
  C2. A block holds a coinbase and the transactions 7, 8 and 7 again: the same
  transaction twice, not next to each other. Every earlier step of \<^verbatim>\<open>check_block\<close>
  passes, the hashes of the block are not distinct, and \<^verbatim>\<open>check_block\<close> completes with
  success, not with \<open>Duplicate\<close>.
\<close>

theorem check_block_misses_duplicate:
  "check_block
     (sample_validator 300000
        (sample_block_of 0x1d00ffff [sample_coinbase [], sample_tx 7, sample_tx 8, sample_tx 7]))
     sample_lib = Success
   \<and> \<not> distinct (map (transaction_hash sample_lib)
                    [sample_coinbase [], sample_tx 7, sample_tx 8, sample_tx 7])"
  by (simp add: check_block_def check_block_tail_def is_distinct_tx_set_def
      is_valid_proof_of_work_def is_valid_time_stamp_def validator_stopped_def
      legacy_sigops_count_def legacy_sigops_count_tx_def count_script_sigops_def
      max_block_size_def max_block_script_sig_operations_def sample_defs)

subsection \<open>work_required\<close>

lemma len_numeral_word256: "LENGTH(256) = 256" by simp

lemma len_numeral_word32: "LENGTH(32) = 32" by simp

lemma unat_readjustment_interval: "unat readjustment_interval = 2016"
  by (simp add: readjustment_interval_def target_timespan_def target_spacing_def)

lemma unat_range_constrain:
  "unat (range_constrain a (target_timespan div 4) (target_timespan * 4)) = clamp_timespan (unat a)"
proof -
  have lo: "target_timespan div 4 = (302400 :: 64 word)"
    by (simp add: target_timespan_def)
  have hi: "target_timespan * 4 = (4838400 :: 64 word)"
    by (simp add: target_timespan_def)
  show ?thesis
    unfolding lo hi range_constrain_def clamp_timespan_def
    by (auto simp add: word_less_nat_alt)
qed

lemma clamp_timespan_bound: "clamp_timespan n \<le> 4838400"
  by (simp add: clamp_timespan_def)

lemma unat_widened:
  fixes x :: "32 word"
  shows "unat (ucast x :: 256 word) = unat x"
proof -
  have "unat x < 2 ^ 32"
    using unsigned_less [of x] by simp
  then have "unat x < 2 ^ 256"
    by (rule less_trans) simp
  then have "take_bit 256 (unat x) = unat x"
    by (simp only: take_bit_nat_eq_self)
  then show ?thesis
    by (simp only: unsigned_ucast_eq len_numeral_word256)
qed

lemma unat_narrowed:
  fixes c :: "64 word"
  assumes "unat c \<le> 4838400"
  shows "unat (ucast (ucast c :: 32 word) :: 256 word) = unat c"
proof -
  have "unat c < 2 ^ 32"
    using assms by simp
  then have "take_bit 32 (unat c) = unat c"
    by (simp only: take_bit_nat_eq_self)
  then have "unat (ucast c :: 32 word) = unat c"
    by (simp only: unsigned_ucast_eq len_numeral_word32)
  then show ?thesis
    by (simp only: unat_widened)
qed

lemma unat_cap:
  fixes r m :: "256 word"
  shows "unat (if r > m then m else r) = min (unat m) (unat r)"
  by (auto simp add: word_less_nat_alt)

lemma unat_target_timespan: "unat (ucast target_timespan :: 256 word) = 1209600"
  by (simp add: target_timespan_def)

text \<open>
  C5. \<^verbatim>\<open>work_required\<close> (the build without the testnet rules) computes what the
  specification says: \<open>max_work_bits\<close> at height 0; the previous block's bits at a
  height that is not a multiple of 2016; and at a positive multiple of 2016 the compact
  form of the previous target times the elapsed time clamped to a quarter of and four
  times the target timespan, divided by the target timespan and capped at the maximal
  target.
\<close>

theorem work_required_follows_spec: "work_required v lib = work_required_spec v lib"
proof (cases "block_height v = 0 \<or> block_height v mod 2016 \<noteq> 0")
  case True
  then show ?thesis
    by (auto simp add: work_required_def work_required_spec_def unat_readjustment_interval
        max_work_bits_def)
next
  case False
  define r0 where "r0 = snd (set_compact lib (previous_block_bits v))"
  define c where "c = range_constrain (actual_timespan v 2016) (target_timespan div 4) (target_timespan * 4)"
  define r2 where "r2 = r0 * ucast (ucast c :: 32 word) div ucast target_timespan"
  have c: "unat c = clamp_timespan (unat (actual_timespan v 2016))"
    by (simp add: c_def unat_range_constrain)
  have "unat (ucast (ucast c :: 32 word) :: 256 word) = unat c"
    by (rule unat_narrowed) (simp add: c clamp_timespan_bound)
  then have r2: "unat r2 = (unat r0 * clamp_timespan (unat (actual_timespan v 2016))) mod 2 ^ 256 div 1209600"
    by (simp add: r2_def unat_div unat_target_timespan unat_word_ariths c)
  have "unat (if r2 > max_target lib then max_target lib else r2)
          = retarget_spec (unat r0) (unat (actual_timespan v 2016)) (unat (max_target lib))"
    by (simp only: unat_cap retarget_spec_def r2)
  then have cap: "(if r2 > max_target lib then max_target lib else r2)
          = of_nat (retarget_spec (unat r0) (unat (actual_timespan v 2016)) (unat (max_target lib)))"
    by (simp add: word_unat_eq_iff unat_of_nat retarget_spec_def)
  have "work_required v lib = compact lib (if r2 > max_target lib then max_target lib else r2)"
    using False
    by (simp add: work_required_def unat_readjustment_interval Let_def r0_def r2_def c_def)
  also have "\<dots> = work_required_spec v lib"
    using False by (simp only: cap work_required_spec_def r0_def) simp
  finally show ?thesis .
qed

theorem work_required_follows_spec_witness:
  "work_required (sample_validator 4032 (sample_block_of 0x1d00ffff [sample_coinbase []])) sample_lib
     = 0x1d00ffff
   \<and> work_required_spec (sample_validator 4032 (sample_block_of 0x1d00ffff [sample_coinbase []]))
       sample_lib = 0x1d00ffff"
  using work_required_follows_spec
    [of "sample_validator 4032 (sample_block_of 0x1d00ffff [sample_coinbase []])" sample_lib]
  by (simp add: work_required_spec_def retarget_spec_def clamp_timespan_def sample_defs)

subsection \<open>accept_block and the coinbase height\<close>












subsection \<open>connect_input\<close>

text \<open>
  C10. \<^verbatim>\<open>connect_input\<close> reads \<^verbatim>\<open>previous_tx.outputs[previous_output.index]\<close>
  without a test. For an input that exists and whose previous transaction is fetched,
  the call runs into the out-of-range read exactly when the index is not below the
  number of outputs of the fetched transaction: nothing before the read guards it, and
  nothing else leads to it. An input that names output 1 of a fetched transaction with a
  single output is such a call.
\<close>

theorem connect_input_unchecked_output_index:
  assumes "input_index < length (inputs current_tx)"
    and "fetch_transaction v (point_hash (previous_output (inputs current_tx ! input_index)))
           = Some (previous_tx, previous_height)"
  shows "connect_input v lib index_in_parent current_tx input_index value_in total_sigops
           = Inl Output_index_out_of_range
         \<longleftrightarrow> \<not> unat (point_index (previous_output (inputs current_tx ! input_index)))
                 < length (outputs previous_tx)"
  using assms
  by (simp add: connect_input_def Let_def split: option.splits)

theorem connect_input_unchecked_output_index_witness:
  "0 < length (inputs (sample_spend 8 1))
   \<and> fetch_transaction (sample_validator 300000 (sample_block_of 0x1d00ffff [sample_coinbase [], sample_spend 8 1]))
        (point_hash (previous_output (inputs (sample_spend 8 1) ! 0))) = Some (sample_funding, 5)
   \<and> \<not> unat (point_index (previous_output (inputs (sample_spend 8 1) ! 0)))
           < length (outputs sample_funding)
   \<and> connect_input (sample_validator 300000 (sample_block_of 0x1d00ffff [sample_coinbase [], sample_spend 8 1]))
        sample_lib 1 (sample_spend 8 1) 0 0 0 = Inl Output_index_out_of_range"
  using connect_input_unchecked_output_index
    [of 0 "sample_spend 8 1"
      "sample_validator 300000 (sample_block_of 0x1d00ffff [sample_coinbase [], sample_spend 8 1])"
      sample_funding 5 sample_lib 1 0 0]
  by (simp add: sample_defs)

section \<open>Properties of chain-state population\<close>

lemma length_resize: "length (resize n xs) = n"
  by (simp add: resize_def)

lemma fill_ordered_stop:
  "get (h + 1) log = (None, log') \<Longrightarrow>
     fill_ordered get h (slot # slots) log = (False, slot # slots, log')"
  by simp

lemma fill_ordered_step:
  "get (h + 1) log = (Some x, log') \<Longrightarrow>
     fill_ordered get h (slot # slots) log
       = (fst (fill_ordered get (h + 1) slots log'),
          x # fst (snd (fill_ordered get (h + 1) slots log')),
          snd (snd (fill_ordered get (h + 1) slots log')))"
  by (simp split: prod.splits)

text \<open>
  A getter that answers from a fixed table \<open>look\<close> and extends the record of reader
  calls by \<open>qs h\<close>.
\<close>

lemma fill_ordered_flag:
  assumes "\<And>h log. get h log = (look h, log @ qs h)"
  shows "fst (fill_ordered get h slots log)
           \<longleftrightarrow> (\<forall>i < length slots. look (h + 1 + of_nat i) \<noteq> None)"
proof (induction slots arbitrary: h log)
  case Nil
  then show ?case by simp
next
  case (Cons slot slots)
  show ?case
  proof (cases "look (h + 1)")
    case None
    then have "\<not> (\<forall>i < length (slot # slots). look (h + 1 + of_nat i) \<noteq> None)"
      by (auto intro: exI [of _ 0])
    moreover have "fill_ordered get h (slot # slots) log = (False, slot # slots, log @ qs (h + 1))"
      using assms [of "h + 1" log] None by (intro fill_ordered_stop) simp
    ultimately show ?thesis
      by (simp only: fst_conv)
  next
    case (Some x)
    have "(\<forall>i < length (slot # slots). look (h + 1 + of_nat i) \<noteq> None)
            \<longleftrightarrow> (\<forall>i < length slots. look (h + 1 + 1 + of_nat i) \<noteq> None)"
      using Some by (auto simp add: All_less_Suc2 add.commute add.left_commute)
    moreover have "fst (fill_ordered get h (slot # slots) log)
            = fst (fill_ordered get (h + 1) slots (log @ qs (h + 1)))"
      using assms [of "h + 1" log] Some
      by (subst fill_ordered_step [of get h log x "log @ qs (h + 1)"]) simp_all
    ultimately show ?thesis
      using Cons.IH [of "h + 1" "log @ qs (h + 1)"] by (simp only:)
  qed
qed

lemma fill_ordered_values:
  assumes "\<And>h log. get h log = (look h, log @ qs h)"
    and "fst (fill_ordered get h slots log)"
  shows "map Some (fst (snd (fill_ordered get h slots log)))
           = map (\<lambda>i. look (h + 1 + of_nat i)) [0 ..< length slots]"
  using assms(2)
proof (induction slots arbitrary: h log)
  case Nil
  then show ?case by simp
next
  case (Cons slot slots)
  have "look (h + 1) \<noteq> None"
    using Cons.prems fill_ordered_flag [of get look qs h "slot # slots" log, OF assms(1)]
    by (auto dest: spec [of _ 0])
  then obtain x where x: "look (h + 1) = Some x"
    by blast
  have step: "fill_ordered get h (slot # slots) log
       = (fst (fill_ordered get (h + 1) slots (log @ qs (h + 1))),
          x # fst (snd (fill_ordered get (h + 1) slots (log @ qs (h + 1)))),
          snd (snd (fill_ordered get (h + 1) slots (log @ qs (h + 1)))))"
    using assms(1) [of "h + 1" log] x by (intro fill_ordered_step) simp
  then have ok: "fst (fill_ordered get (h + 1) slots (log @ qs (h + 1)))"
    using Cons.prems by (simp only: fst_conv)
  have shift: "map (\<lambda>i. look (h + 1 + of_nat i)) [0 ..< length (slot # slots)]
          = look (h + 1) # map (\<lambda>i. look (h + 1 + 1 + of_nat i)) [0 ..< length slots]"
    by (simp add: map_upt_Suc add.commute add.left_commute del: upt_Suc)
  show ?case
    using Cons.IH [OF ok] x by (simp only: shift step) simp
qed

lemma fill_ordered_log:
  assumes "\<And>h log. get h log = (look h, log @ qs h)"
    and "\<And>h. list_all P (qs h)"
  shows "\<exists>ex. snd (snd (fill_ordered get h slots log)) = log @ ex \<and> list_all P ex"
proof (induction slots arbitrary: h log)
  case Nil
  then show ?case by simp
next
  case (Cons slot slots)
  show ?case
  proof (cases "look (h + 1)")
    case None
    have "fill_ordered get h (slot # slots) log = (False, slot # slots, log @ qs (h + 1))"
      using assms(1) [of "h + 1" log] None by (intro fill_ordered_stop) simp
    then show ?thesis
      using assms(2) [of "h + 1"] by simp
  next
    case (Some x)
    have step: "snd (snd (fill_ordered get h (slot # slots) log))
          = snd (snd (fill_ordered get (h + 1) slots (log @ qs (h + 1))))"
      using assms(1) [of "h + 1" log] Some
      by (subst fill_ordered_step [of get h log x "log @ qs (h + 1)"]) simp_all
    from Cons.IH [of "h + 1" "log @ qs (h + 1)"]
    obtain ex where "snd (snd (fill_ordered get (h + 1) slots (log @ qs (h + 1))))
                       = (log @ qs (h + 1)) @ ex" and "list_all P ex"
      by blast
    then show ?thesis
      using assms(2) [of "h + 1"]
      by (intro exI [of _ "qs (h + 1) @ ex"]) (simp only: step, simp)
  qed
qed

lemma fill_range_flag:
  assumes "\<And>h log. get h log = (look h, log @ qs h)"
  shows "fst (fill_ordered get (high - count) (resize (unat count) old) log)
           \<longleftrightarrow> list_all (\<lambda>h. look h \<noteq> None) (range_heights high count)"
  by (auto simp add: fill_ordered_flag [of get look qs, OF assms] length_resize
      range_heights_def list_all_iff)

lemma fill_range_values:
  assumes "\<And>h log. get h log = (look h, log @ qs h)"
    and "fst (fill_ordered get (high - count) (resize (unat count) old) log)"
  shows "map Some (fst (snd (fill_ordered get (high - count) (resize (unat count) old) log)))
           = map look (range_heights high count)"
  using fill_ordered_values [of get look qs "high - count" "resize (unat count) old" log,
      OF assms]
  by (simp add: length_resize range_heights_def comp_def)

text \<open>The getters, as a table lookup and an extension of the record of reader calls.\<close>

lemma get_bits_found:
  "get_bits pcs h branch blk log
     = (value32 (found pcs branch blk Bits h),
        log @ (if branch_value branch Bits h = None then [(Bits, h, blk)] else []))"
  by (simp add: get_bits_def found_def branch_value_def chain_value_def value32_def
      split: option.splits)

lemma get_version_found:
  "get_version pcs h branch blk log
     = (value32 (found pcs branch blk Version h),
        log @ (if branch_value branch Version h = None then [(Version, h, blk)] else []))"
  by (simp add: get_version_def found_def branch_value_def chain_value_def value32_def
      split: option.splits)

lemma get_timestamp_found:
  "get_timestamp pcs h branch blk log
     = (value32 (found pcs branch blk Timestamp h),
        log @ (if branch_value branch Timestamp h = None then [(Timestamp, h, blk)] else []))"
  by (simp add: get_timestamp_def found_def branch_value_def chain_value_def value32_def
      split: option.splits)

lemma get_block_hash_found:
  "get_block_hash pcs h branch blk log
     = (case found pcs branch blk Block_hash h of Some (Hash y) \<Rightarrow> Some y | _ \<Rightarrow> None,
        log @ (if branch_value branch Block_hash h = None then [(Block_hash, h, blk)] else []))"
  by (simp add: get_block_hash_def found_def branch_value_def chain_value_def
      split: option.splits)

lemma asked_beyond_branch:
  "list_all (beyond_branch branch blk)
     (if branch_value branch a h = None then [(a, h, blk)] else [])"
  by (simp add: beyond_branch_def)

lemma available_value32:
  "a \<noteq> Block_hash \<Longrightarrow>
     available pcs branch blk (a, h) \<longleftrightarrow> value32 (found pcs branch blk a h) \<noteq> None"
  by (cases a)
     (auto simp add: available_def found_def value32_def branch_value_def chain_value_def
        split: option.splits)

lemma found_value32:
  "a \<noteq> Block_hash \<Longrightarrow> value32 (found pcs branch blk a h) = Some x
     \<longleftrightarrow> found pcs branch blk a h = Some (Word32 x)"
  by (cases a)
     (auto simp add: found_def value32_def branch_value_def chain_value_def
        split: option.splits)

lemma map_found_value32:
  assumes "a \<noteq> Block_hash"
    and "map Some xs = map (\<lambda>h. value32 (found pcs branch blk a h)) hs"
  shows "map (\<lambda>x. Some (Word32 x)) xs = map (found pcs branch blk a) hs"
  using assms(2)
proof (induction xs arbitrary: hs)
  case Nil
  then show ?case by simp
next
  case (Cons x xs)
  then obtain h hs' where hs: "hs = h # hs'"
    by (cases hs) simp_all
  with Cons.prems have "value32 (found pcs branch blk a h) = Some x"
    and "map Some xs = map (\<lambda>h. value32 (found pcs branch blk a h)) hs'"
    by simp_all
  then show ?case
    using Cons.IH [of hs'] found_value32 [OF assms(1), of pcs branch blk h x] hs by simp
qed

lemma populate_bits_spec:
  fixes pcs data m branch blk log
  defines "R \<equiv> populate_bits pcs data m branch blk log"
  shows populate_bits_flag:
      "fst R \<longleftrightarrow> list_all (available pcs branch blk)
         (map (Pair Bits) (range_heights (bits_high m) (bits_count m) @ [bits_self m]))"
    and populate_bits_log:
      "\<exists>ex. snd (snd R) = log @ ex \<and> list_all (beyond_branch branch blk) ex"
    and populate_bits_values:
      "fst R \<Longrightarrow>
         map (\<lambda>x. Some (Word32 x)) (data_bits_ordered (fst (snd R)))
           = map (found pcs branch blk Bits) (range_heights (bits_high m) (bits_count m))
         \<and> Some (Word32 (data_bits_self (fst (snd R)))) = found pcs branch blk Bits (bits_self m)"
    and populate_bits_frame:
      "fst (snd R) = data\<lparr>data_bits_ordered := data_bits_ordered (fst (snd R)),
                           data_bits_self := data_bits_self (fst (snd R))\<rparr>"
proof -
  let ?look = "\<lambda>h. value32 (found pcs branch blk Bits h)"
  let ?qs = "\<lambda>h. if branch_value branch Bits h = None then [(Bits, h, blk)] else []"
  let ?hs = "range_heights (bits_high m) (bits_count m)"
  let ?F = "fill_ordered (\<lambda>h. get_bits pcs h branch blk) (bits_high m - bits_count m)
              (resize (unat (bits_count m)) (data_bits_ordered data)) log"
  have g: "\<And>h log. get_bits pcs h branch blk log = (?look h, log @ ?qs h)"
    by (rule get_bits_found)
  obtain ok filled log1 where F: "?F = (ok, filled, log1)"
    by (metis prod_cases3)
  have ok: "ok \<longleftrightarrow> list_all (\<lambda>h. ?look h \<noteq> None) ?hs"
    using fill_range_flag [of "\<lambda>h. get_bits pcs h branch blk" ?look ?qs, OF g,
        of "bits_high m" "bits_count m" "data_bits_ordered data" log]
    by (simp only: F fst_conv)
  have filled: "ok \<Longrightarrow> map Some filled = map ?look ?hs"
    using fill_range_values [of "\<lambda>h. get_bits pcs h branch blk" ?look ?qs, OF g,
        of "bits_high m" "bits_count m" "data_bits_ordered data" log]
    by (simp only: F fst_conv snd_conv)
  obtain ex1 where log1: "log1 = log @ ex1" and ex1: "list_all (beyond_branch branch blk) ex1"
    using fill_ordered_log [of "\<lambda>h. get_bits pcs h branch blk" ?look ?qs
        "beyond_branch branch blk" "bits_high m - bits_count m"
        "resize (unat (bits_count m)) (data_bits_ordered data)" log, OF g asked_beyond_branch]
    by (auto simp only: F snd_conv)
  have R: "R = (if \<not> ok then (False, data\<lparr>data_bits_ordered := filled\<rparr>, log1)
                else (case ?look (bits_self m) of
                        None \<Rightarrow> (False, data\<lparr>data_bits_ordered := filled\<rparr>,
                                  log1 @ ?qs (bits_self m))
                      | Some x \<Rightarrow> (True, data\<lparr>data_bits_ordered := filled, data_bits_self := x\<rparr>,
                                    log1 @ ?qs (bits_self m))))"
    unfolding R_def populate_bits_def
    by (simp only: F prod.case get_bits_found)
  have avail: "\<And>h. available pcs branch blk (Bits, h) \<longleftrightarrow> ?look h \<noteq> None"
    by (rule available_value32) simp
  show "fst R \<longleftrightarrow> list_all (available pcs branch blk) (map (Pair Bits) (?hs @ [bits_self m]))"
    by (cases "?look (bits_self m)") (auto simp add: R ok avail list_all_iff)
  show "\<exists>ex. snd (snd R) = log @ ex \<and> list_all (beyond_branch branch blk) ex"
    using ex1 asked_beyond_branch [of branch blk Bits "bits_self m"]
    by (cases "?look (bits_self m)") (auto simp add: R log1)
  show "fst (snd R) = data\<lparr>data_bits_ordered := data_bits_ordered (fst (snd R)),
                             data_bits_self := data_bits_self (fst (snd R))\<rparr>"
    by (cases "?look (bits_self m)") (auto simp add: R)
  assume "fst R"
  then have okT: ok and "?look (bits_self m) \<noteq> None"
    by (cases ok; cases "?look (bits_self m)"; simp add: R)+
  then obtain x where x: "?look (bits_self m) = Some x"
    by blast
  have "map (\<lambda>x. Some (Word32 x)) filled = map (found pcs branch blk Bits) ?hs"
    using filled [OF okT] by (intro map_found_value32) simp_all
  moreover have "found pcs branch blk Bits (bits_self m) = Some (Word32 x)"
    using x found_value32 [of Bits pcs branch blk "bits_self m" x] by simp
  ultimately show "map (\<lambda>x. Some (Word32 x)) (data_bits_ordered (fst (snd R)))
           = map (found pcs branch blk Bits) ?hs
         \<and> Some (Word32 (data_bits_self (fst (snd R)))) = found pcs branch blk Bits (bits_self m)"
    using okT x by (simp add: R)
qed

lemma populate_versions_spec:
  fixes pcs data m branch blk log
  defines "R \<equiv> populate_versions pcs data m branch blk log"
  shows populate_versions_flag:
      "fst R \<longleftrightarrow> list_all (available pcs branch blk)
         (map (Pair Version) (range_heights (version_high m) (version_count m) @ [version_self m]))"
    and populate_versions_log:
      "\<exists>ex. snd (snd R) = log @ ex \<and> list_all (beyond_branch branch blk) ex"
    and populate_versions_values:
      "fst R \<Longrightarrow>
         map (\<lambda>x. Some (Word32 x)) (data_version_ordered (fst (snd R)))
           = map (found pcs branch blk Version) (range_heights (version_high m) (version_count m))
         \<and> Some (Word32 (data_version_self (fst (snd R)))) = found pcs branch blk Version (version_self m)"
    and populate_versions_frame:
      "fst (snd R) = data\<lparr>data_version_ordered := data_version_ordered (fst (snd R)),
                           data_version_self := data_version_self (fst (snd R))\<rparr>"
proof -
  let ?look = "\<lambda>h. value32 (found pcs branch blk Version h)"
  let ?qs = "\<lambda>h. if branch_value branch Version h = None then [(Version, h, blk)] else []"
  let ?hs = "range_heights (version_high m) (version_count m)"
  let ?F = "fill_ordered (\<lambda>h. get_version pcs h branch blk) (version_high m - version_count m)
              (resize (unat (version_count m)) (data_version_ordered data)) log"
  have g: "\<And>h log. get_version pcs h branch blk log = (?look h, log @ ?qs h)"
    by (rule get_version_found)
  obtain ok filled log1 where F: "?F = (ok, filled, log1)"
    by (metis prod_cases3)
  have ok: "ok \<longleftrightarrow> list_all (\<lambda>h. ?look h \<noteq> None) ?hs"
    using fill_range_flag [of "\<lambda>h. get_version pcs h branch blk" ?look ?qs, OF g,
        of "version_high m" "version_count m" "data_version_ordered data" log]
    by (simp only: F fst_conv)
  have filled: "ok \<Longrightarrow> map Some filled = map ?look ?hs"
    using fill_range_values [of "\<lambda>h. get_version pcs h branch blk" ?look ?qs, OF g,
        of "version_high m" "version_count m" "data_version_ordered data" log]
    by (simp only: F fst_conv snd_conv)
  obtain ex1 where log1: "log1 = log @ ex1" and ex1: "list_all (beyond_branch branch blk) ex1"
    using fill_ordered_log [of "\<lambda>h. get_version pcs h branch blk" ?look ?qs
        "beyond_branch branch blk" "version_high m - version_count m"
        "resize (unat (version_count m)) (data_version_ordered data)" log, OF g asked_beyond_branch]
    by (auto simp only: F snd_conv)
  have R: "R = (if \<not> ok then (False, data\<lparr>data_version_ordered := filled\<rparr>, log1)
                else (case ?look (version_self m) of
                        None \<Rightarrow> (False, data\<lparr>data_version_ordered := filled\<rparr>,
                                  log1 @ ?qs (version_self m))
                      | Some x \<Rightarrow> (True, data\<lparr>data_version_ordered := filled, data_version_self := x\<rparr>,
                                    log1 @ ?qs (version_self m))))"
    unfolding R_def populate_versions_def
    by (simp only: F prod.case get_version_found)
  have avail: "\<And>h. available pcs branch blk (Version, h) \<longleftrightarrow> ?look h \<noteq> None"
    by (rule available_value32) simp
  show "fst R \<longleftrightarrow> list_all (available pcs branch blk) (map (Pair Version) (?hs @ [version_self m]))"
    by (cases "?look (version_self m)") (auto simp add: R ok avail list_all_iff)
  show "\<exists>ex. snd (snd R) = log @ ex \<and> list_all (beyond_branch branch blk) ex"
    using ex1 asked_beyond_branch [of branch blk Version "version_self m"]
    by (cases "?look (version_self m)") (auto simp add: R log1)
  show "fst (snd R) = data\<lparr>data_version_ordered := data_version_ordered (fst (snd R)),
                             data_version_self := data_version_self (fst (snd R))\<rparr>"
    by (cases "?look (version_self m)") (auto simp add: R)
  assume "fst R"
  then have okT: ok and "?look (version_self m) \<noteq> None"
    by (cases ok; cases "?look (version_self m)"; simp add: R)+
  then obtain x where x: "?look (version_self m) = Some x"
    by blast
  have "map (\<lambda>x. Some (Word32 x)) filled = map (found pcs branch blk Version) ?hs"
    using filled [OF okT] by (intro map_found_value32) simp_all
  moreover have "found pcs branch blk Version (version_self m) = Some (Word32 x)"
    using x found_value32 [of Version pcs branch blk "version_self m" x] by simp
  ultimately show "map (\<lambda>x. Some (Word32 x)) (data_version_ordered (fst (snd R)))
           = map (found pcs branch blk Version) ?hs
         \<and> Some (Word32 (data_version_self (fst (snd R)))) = found pcs branch blk Version (version_self m)"
    using okT x by (simp add: R)
qed

lemma populate_timestamps_spec:
  fixes pcs data m branch blk log
  defines "R \<equiv> populate_timestamps pcs data m branch blk log"
  shows populate_timestamps_flag:
      "fst R \<longleftrightarrow> list_all (available pcs branch blk)
         (map (Pair Timestamp)
            (range_heights (timestamp_high m) (timestamp_count m)
             @ (if timestamp_retarget m \<noteq> unrequested then [timestamp_retarget m] else [])
             @ [timestamp_self m]))"
    and populate_timestamps_log:
      "\<exists>ex. snd (snd R) = log @ ex \<and> list_all (beyond_branch branch blk) ex"
    and populate_timestamps_values:
      "fst R \<Longrightarrow>
         map (\<lambda>x. Some (Word32 x)) (data_timestamp_ordered (fst (snd R)))
           = map (found pcs branch blk Timestamp)
               (range_heights (timestamp_high m) (timestamp_count m))
         \<and> Some (Word32 (data_timestamp_self (fst (snd R))))
             = found pcs branch blk Timestamp (timestamp_self m)
         \<and> (if timestamp_retarget m \<noteq> unrequested
            then Some (Word32 (data_timestamp_retarget (fst (snd R))))
                   = found pcs branch blk Timestamp (timestamp_retarget m)
            else data_timestamp_retarget (fst (snd R)) = unspecified_timestamp)"
    and populate_timestamps_frame:
      "fst (snd R) = data\<lparr>data_timestamp_ordered := data_timestamp_ordered (fst (snd R)),
                           data_timestamp_self := data_timestamp_self (fst (snd R)),
                           data_timestamp_retarget := data_timestamp_retarget (fst (snd R))\<rparr>"
proof -
  let ?look = "\<lambda>h. value32 (found pcs branch blk Timestamp h)"
  let ?qs = "\<lambda>h. if branch_value branch Timestamp h = None then [(Timestamp, h, blk)] else []"
  let ?hs = "range_heights (timestamp_high m) (timestamp_count m)"
  let ?rt = "timestamp_retarget m"
  let ?self = "timestamp_self m"
  let ?F = "fill_ordered (\<lambda>h. get_timestamp pcs h branch blk)
              (timestamp_high m - timestamp_count m)
              (resize (unat (timestamp_count m)) (data_timestamp_ordered data)) log"
  have g: "\<And>h log. get_timestamp pcs h branch blk log = (?look h, log @ ?qs h)"
    by (rule get_timestamp_found)
  obtain ok filled log1 where F: "?F = (ok, filled, log1)"
    by (metis prod_cases3)
  have ok: "ok \<longleftrightarrow> list_all (\<lambda>h. ?look h \<noteq> None) ?hs"
    using fill_range_flag [of "\<lambda>h. get_timestamp pcs h branch blk" ?look ?qs, OF g,
        of "timestamp_high m" "timestamp_count m" "data_timestamp_ordered data" log]
    by (simp only: F fst_conv)
  have filled: "ok \<Longrightarrow> map Some filled = map ?look ?hs"
    using fill_range_values [of "\<lambda>h. get_timestamp pcs h branch blk" ?look ?qs, OF g,
        of "timestamp_high m" "timestamp_count m" "data_timestamp_ordered data" log]
    by (simp only: F fst_conv snd_conv)
  obtain ex1 where log1: "log1 = log @ ex1" and ex1: "list_all (beyond_branch branch blk) ex1"
    using fill_ordered_log [of "\<lambda>h. get_timestamp pcs h branch blk" ?look ?qs
        "beyond_branch branch blk" "timestamp_high m - timestamp_count m"
        "resize (unat (timestamp_count m)) (data_timestamp_ordered data)" log,
        OF g asked_beyond_branch]
    by (auto simp only: F snd_conv)
  let ?d1 = "data\<lparr>data_timestamp_retarget := unspecified_timestamp,
                   data_timestamp_ordered := filled\<rparr>"
  have R: "R =
     (if \<not> ok then (False, ?d1, log1)
      else if ?rt \<noteq> unrequested then
        (case ?look ?rt of
           None \<Rightarrow> (False, ?d1, log1 @ ?qs ?rt)
         | Some x \<Rightarrow>
             (case ?look ?self of
                None \<Rightarrow> (False, ?d1\<lparr>data_timestamp_retarget := x\<rparr>, log1 @ ?qs ?rt @ ?qs ?self)
              | Some y \<Rightarrow> (True, ?d1\<lparr>data_timestamp_retarget := x, data_timestamp_self := y\<rparr>,
                            log1 @ ?qs ?rt @ ?qs ?self)))
      else
        (case ?look ?self of
           None \<Rightarrow> (False, ?d1, log1 @ ?qs ?self)
         | Some y \<Rightarrow> (True, ?d1\<lparr>data_timestamp_self := y\<rparr>, log1 @ ?qs ?self)))"
    unfolding R_def
    by (simp add: populate_timestamps_def Let_def F get_timestamp_found split: option.splits)
  have avail: "\<And>h. available pcs branch blk (Timestamp, h) \<longleftrightarrow> ?look h \<noteq> None"
    by (rule available_value32) simp
  have av: "list_all (available pcs branch blk) (map (Pair Timestamp) xs)
              \<longleftrightarrow> list_all (\<lambda>h. ?look h \<noteq> None) xs" for xs
    by (simp add: list.pred_map comp_def avail)
  have flag: "fst R \<longleftrightarrow> ok \<and> (?rt \<noteq> unrequested \<longrightarrow> ?look ?rt \<noteq> None) \<and> ?look ?self \<noteq> None"
    by (cases "?look ?rt"; cases "?look ?self"; simp add: R)
  show "fst R \<longleftrightarrow> list_all (available pcs branch blk)
          (map (Pair Timestamp)
             (?hs @ (if ?rt \<noteq> unrequested then [?rt] else []) @ [?self]))"
    unfolding flag av ok by (cases "?rt \<noteq> unrequested"; simp)
  have "\<exists>ex2. snd (snd R) = log1 @ ex2 \<and> list_all (beyond_branch branch blk) ex2"
    using asked_beyond_branch [of branch blk Timestamp ?rt]
      asked_beyond_branch [of branch blk Timestamp ?self]
    by (cases "?look ?rt"; cases "?look ?self"; simp add: R)
  then obtain ex2 where "snd (snd R) = log1 @ ex2" and "list_all (beyond_branch branch blk) ex2"
    by blast
  then show "\<exists>ex. snd (snd R) = log @ ex \<and> list_all (beyond_branch branch blk) ex"
    using ex1 by (intro exI [of _ "ex1 @ ex2"]) (simp add: log1)
  show "fst (snd R) = data\<lparr>data_timestamp_ordered := data_timestamp_ordered (fst (snd R)),
                           data_timestamp_self := data_timestamp_self (fst (snd R)),
                           data_timestamp_retarget := data_timestamp_retarget (fst (snd R))\<rparr>"
    by (cases "?look ?rt"; cases "?look ?self"; simp add: R)
  assume "fst R"
  then have okT: ok and self: "?look ?self \<noteq> None"
    and rt: "?rt \<noteq> unrequested \<Longrightarrow> ?look ?rt \<noteq> None"
    by (simp_all add: flag)
  from self obtain y where y: "?look ?self = Some y"
    by blast
  have ordered: "map (\<lambda>x. Some (Word32 x)) filled = map (found pcs branch blk Timestamp) ?hs"
    using filled [OF okT] by (intro map_found_value32) simp_all
  have fy: "found pcs branch blk Timestamp ?self = Some (Word32 y)"
    using y found_value32 [of Timestamp pcs branch blk ?self y] by simp
  show "map (\<lambda>x. Some (Word32 x)) (data_timestamp_ordered (fst (snd R)))
           = map (found pcs branch blk Timestamp) ?hs
         \<and> Some (Word32 (data_timestamp_self (fst (snd R))))
             = found pcs branch blk Timestamp ?self
         \<and> (if ?rt \<noteq> unrequested
            then Some (Word32 (data_timestamp_retarget (fst (snd R))))
                   = found pcs branch blk Timestamp ?rt
            else data_timestamp_retarget (fst (snd R)) = unspecified_timestamp)"
  proof (cases "?rt \<noteq> unrequested")
    case True
    with rt obtain x where x: "?look ?rt = Some x"
      by blast
    then have "found pcs branch blk Timestamp ?rt = Some (Word32 x)"
      using found_value32 [of Timestamp pcs branch blk ?rt x] by simp
    then show ?thesis
      using True okT x y ordered fy by (simp add: R)
  next
    case False
    then show ?thesis
      using okT y ordered fy by (simp add: R)
  qed
qed

lemma populate_checkpoint_spec:
  fixes pcs data m branch blk log
  defines "R \<equiv> populate_checkpoint pcs data m branch blk log"
  shows populate_checkpoint_flag:
      "fst R \<longleftrightarrow> list_all (available pcs branch blk)
         (if allow_collisions_height m \<noteq> unrequested
          then [(Block_hash, allow_collisions_height m)] else [])"
    and populate_checkpoint_log:
      "\<exists>ex. snd (snd R) = log @ ex \<and> list_all (beyond_branch branch blk) ex"
    and populate_checkpoint_values:
      "fst R \<Longrightarrow>
         (if allow_collisions_height m \<noteq> unrequested
          then Some (Hash (allow_collisions_hash (fst (snd R))))
                 = found pcs branch blk Block_hash (allow_collisions_height m)
          else allow_collisions_hash (fst (snd R)) = null_hash)"
    and populate_checkpoint_frame:
      "fst (snd R) = data\<lparr>allow_collisions_hash := allow_collisions_hash (fst (snd R))\<rparr>"
proof -
  let ?h = "allow_collisions_height m"
  have avail: "available pcs branch blk (Block_hash, ?h)
                 \<longleftrightarrow> (\<exists>y. found pcs branch blk Block_hash ?h = Some (Hash y))"
    by (auto simp add: available_def found_def branch_value_def chain_value_def
        split: option.splits)
  have R: "R =
     (if ?h = unrequested then (True, data\<lparr>allow_collisions_hash := null_hash\<rparr>, log)
      else (case found pcs branch blk Block_hash ?h of
              Some (Hash y) \<Rightarrow>
                (True, data\<lparr>allow_collisions_hash := y\<rparr>,
                 log @ (if branch_value branch Block_hash ?h = None
                        then [(Block_hash, ?h, blk)] else []))
            | _ \<Rightarrow>
                (False, data,
                 log @ (if branch_value branch Block_hash ?h = None
                        then [(Block_hash, ?h, blk)] else []))))"
    unfolding R_def
    by (simp add: populate_checkpoint_def get_block_hash_found
        split: option.splits attribute_value.splits)
  show "fst R \<longleftrightarrow> list_all (available pcs branch blk)
          (if ?h \<noteq> unrequested then [(Block_hash, ?h)] else [])"
    by (auto simp add: R avail split: option.splits attribute_value.splits)
  show "\<exists>ex. snd (snd R) = log @ ex \<and> list_all (beyond_branch branch blk) ex"
    by (auto simp add: R beyond_branch_def split: option.splits attribute_value.splits)
  show "fst (snd R) = data\<lparr>allow_collisions_hash := allow_collisions_hash (fst (snd R))\<rparr>"
    by (auto simp add: R split: option.splits attribute_value.splits)
  assume "fst R"
  then show "if ?h \<noteq> unrequested
          then Some (Hash (allow_collisions_hash (fst (snd R))))
                 = found pcs branch blk Block_hash ?h
          else allow_collisions_hash (fst (snd R)) = null_hash"
    by (auto simp add: R split: option.splits attribute_value.splits if_splits)
qed

lemma populate_all_spec:
  fixes pcs data branch blk log
  defines "m \<equiv> get_map pcs (data_height data) (checkpoints_sorted pcs) (forks pcs)"
  defines "R \<equiv> populate_all pcs data branch blk log"
  shows populate_all_flag:
      "fst R \<longleftrightarrow> list_all (available pcs branch blk) (required m)"
    and populate_all_log:
      "\<exists>ex. snd (snd R) = log @ ex \<and> list_all (beyond_branch branch blk) ex"
    and populate_all_values:
      "fst R \<Longrightarrow> fully_populated pcs branch blk m (fst (snd R))"
proof -
  define R1 where "R1 = populate_bits pcs data m branch blk log"
  define R2 where "R2 = populate_versions pcs (fst (snd R1)) m branch blk (snd (snd R1))"
  define R3 where "R3 = populate_timestamps pcs (fst (snd R2)) m branch blk (snd (snd R2))"
  define R4 where "R4 = populate_checkpoint pcs (fst (snd R3)) m branch blk (snd (snd R3))"
  have R: "R = (if \<not> fst R1 then (False, fst (snd R1), snd (snd R1))
                else if \<not> fst R2 then (False, fst (snd R2), snd (snd R2))
                else if \<not> fst R3 then (False, fst (snd R3), snd (snd R3))
                else R4)"
    unfolding R_def R1_def R2_def R3_def R4_def m_def
    by (simp add: populate_all_def Let_def case_prod_beta)
  note f1 = populate_bits_flag [of pcs data m branch blk log, folded R1_def]
  note f2 = populate_versions_flag [of pcs "fst (snd R1)" m branch blk "snd (snd R1)",
      folded R2_def]
  note f3 = populate_timestamps_flag [of pcs "fst (snd R2)" m branch blk "snd (snd R2)",
      folded R3_def]
  note f4 = populate_checkpoint_flag [of pcs "fst (snd R3)" m branch blk "snd (snd R3)",
      folded R4_def]
  show "fst R \<longleftrightarrow> list_all (available pcs branch blk) (required m)"
    unfolding required_def list_all_append f1 [symmetric] f2 [symmetric] f3 [symmetric]
      f4 [symmetric]
    by (auto simp add: R)
  obtain e1 where e1: "snd (snd R1) = log @ e1" "list_all (beyond_branch branch blk) e1"
    using populate_bits_log [of pcs data m branch blk log, folded R1_def] by blast
  obtain e2 where e2: "snd (snd R2) = snd (snd R1) @ e2" "list_all (beyond_branch branch blk) e2"
    using populate_versions_log [of pcs "fst (snd R1)" m branch blk "snd (snd R1)",
        folded R2_def] by blast
  obtain e3 where e3: "snd (snd R3) = snd (snd R2) @ e3" "list_all (beyond_branch branch blk) e3"
    using populate_timestamps_log [of pcs "fst (snd R2)" m branch blk "snd (snd R2)",
        folded R3_def] by blast
  obtain e4 where e4: "snd (snd R4) = snd (snd R3) @ e4" "list_all (beyond_branch branch blk) e4"
    using populate_checkpoint_log [of pcs "fst (snd R3)" m branch blk "snd (snd R3)",
        folded R4_def] by blast
  have "snd (snd R) = log @ e1 \<or> snd (snd R) = log @ (e1 @ e2)
          \<or> snd (snd R) = log @ (e1 @ e2 @ e3) \<or> snd (snd R) = log @ (e1 @ e2 @ e3 @ e4)"
    by (simp add: R e1(1) e2(1) e3(1) e4(1))
  moreover have "list_all (beyond_branch branch blk) e1"
    "list_all (beyond_branch branch blk) (e1 @ e2)"
    "list_all (beyond_branch branch blk) (e1 @ e2 @ e3)"
    "list_all (beyond_branch branch blk) (e1 @ e2 @ e3 @ e4)"
    using e1(2) e2(2) e3(2) e4(2) by simp_all
  ultimately show "\<exists>ex. snd (snd R) = log @ ex \<and> list_all (beyond_branch branch blk) ex"
    by blast
  assume ok: "fst R"
  then have ok1: "fst R1" and ok2: "fst R2" and ok3: "fst R3" and ok4: "fst R4" and R4: "R = R4"
    by (simp_all add: R split: if_splits)
  note v1 = populate_bits_values [of pcs data m branch blk log, folded R1_def, OF ok1]
  note v2 = populate_versions_values [of pcs "fst (snd R1)" m branch blk "snd (snd R1)",
      folded R2_def, OF ok2]
  note v3 = populate_timestamps_values [of pcs "fst (snd R2)" m branch blk "snd (snd R2)",
      folded R3_def, OF ok3]
  note v4 = populate_checkpoint_values [of pcs "fst (snd R3)" m branch blk "snd (snd R3)",
      folded R4_def, OF ok4]
  note fr2 = populate_versions_frame [of pcs "fst (snd R1)" m branch blk "snd (snd R1)",
      folded R2_def]
  note fr3 = populate_timestamps_frame [of pcs "fst (snd R2)" m branch blk "snd (snd R2)",
      folded R3_def]
  note fr4 = populate_checkpoint_frame [of pcs "fst (snd R3)" m branch blk "snd (snd R3)",
      folded R4_def]
  have d2: "data_bits_ordered (fst (snd R2)) = data_bits_ordered (fst (snd R1))"
    "data_bits_self (fst (snd R2)) = data_bits_self (fst (snd R1))"
    by (subst fr2, simp)+
  have d3: "data_bits_ordered (fst (snd R3)) = data_bits_ordered (fst (snd R2))"
    "data_bits_self (fst (snd R3)) = data_bits_self (fst (snd R2))"
    "data_version_ordered (fst (snd R3)) = data_version_ordered (fst (snd R2))"
    "data_version_self (fst (snd R3)) = data_version_self (fst (snd R2))"
    by (subst fr3, simp)+
  have d4: "data_bits_ordered (fst (snd R4)) = data_bits_ordered (fst (snd R3))"
    "data_bits_self (fst (snd R4)) = data_bits_self (fst (snd R3))"
    "data_version_ordered (fst (snd R4)) = data_version_ordered (fst (snd R3))"
    "data_version_self (fst (snd R4)) = data_version_self (fst (snd R3))"
    "data_timestamp_ordered (fst (snd R4)) = data_timestamp_ordered (fst (snd R3))"
    "data_timestamp_self (fst (snd R4)) = data_timestamp_self (fst (snd R3))"
    "data_timestamp_retarget (fst (snd R4)) = data_timestamp_retarget (fst (snd R3))"
    by (subst fr4, simp)+
  show "fully_populated pcs branch blk m (fst (snd R))"
    unfolding fully_populated_def R4 d4 d3 d2
    using v1 v2 v3 v4 by blast
qed

lemmas sample_chain_defs = sample_populator_def sample_fast_chain_def
  sample_branch_def sample_branch_header_def sample_state_def

lemma sample_required:
  "required (sample_map h)
     = [(Bits, h - 2), (Bits, h - 1), (Bits, h), (Version, h - 1), (Version, h),
        (Timestamp, h - 2), (Timestamp, h - 1), (Timestamp, h)]"
proof -
  have "[0 ..< 2] = [0, Suc 0]" and "[0 ..< 1] = [0]"
    by (simp_all add: numeral_2_eq_2)
  then show ?thesis
    by (simp add: required_def range_heights_def sample_map_def unrequested_def)
qed

text \<open>
  C7, as stated, fails on the two paths of \<^verbatim>\<open>populate(branch)\<close> that make no lookup.
  A branch whose top's parent carries a state is promoted: a state is returned although
  the reader holds nothing at height 10, which the map requires and the branch does not
  cover. And an empty branch returns no state although every attribute the map requires
  is available from the reader.
\<close>

theorem populate_branch_counterexample:
  "\<not> branch_empty (sample_branch False (Some sample_state))
   \<and> \<not> list_all
         (available (sample_populator (sample_fast_chain 5))
            (sample_branch False (Some sample_state)) False)
         (required (get_map (sample_populator (sample_fast_chain 5))
            (branch_top_height (sample_branch False (Some sample_state))) [] 0))
   \<and> fst (populate_branch (sample_populator (sample_fast_chain 5))
            (sample_branch False (Some sample_state)) []) \<noteq> None
   \<and> list_all
       (available (sample_populator (sample_fast_chain 10)) (sample_branch True None) False)
       (required (get_map (sample_populator (sample_fast_chain 10))
          (branch_top_height (sample_branch True None)) [] 0))
   \<and> fst (populate_branch (sample_populator (sample_fast_chain 10))
            (sample_branch True None) []) = None"
  by (simp add: populate_branch_def parent_state_def Let_def sample_required available_def
      branch_value_def chain_value_def sample_chain_defs)

text \<open>
  C7, amended. For an empty branch, population returns no state. For a branch that is
  not empty and whose top's parent carries a state, it returns the promotion of that
  state and makes no lookup. For a branch that is not empty and whose top's parent
  carries no state, it returns no state if and only if some attribute the map requires
  is available neither from the branch nor from the reader; every call it makes to the
  reader is for a height the branch does not cover; and a state it returns holds, for
  every required attribute, the value found for it, the branch's where the branch covers
  the height.
\<close>

theorem populate_branch_spec:
  fixes pcs branch log
  defines "m \<equiv> get_map pcs (branch_top_height branch) (checkpoints_sorted pcs) (forks pcs)"
  defines "R \<equiv> populate_branch pcs branch log"
  shows "(branch_empty branch \<longrightarrow> R = (None, None, log))
       \<and> (\<not> branch_empty branch \<longrightarrow>
            (\<forall>promoted. parent_state branch = Some promoted \<longrightarrow>
               R = (Some (promote pcs promoted (entry_header (branch_top branch))),
                    Some (promote pcs promoted (entry_header (branch_top branch))), log)))
       \<and> (\<not> branch_empty branch \<and> parent_state branch = None \<longrightarrow>
            (fst R = None \<longleftrightarrow> \<not> list_all (available pcs branch False) (required m))
            \<and> (\<exists>ex. snd (snd R) = log @ ex \<and> list_all (beyond_branch branch False) ex)
            \<and> (\<forall>st. fst R = Some st \<longrightarrow> fully_populated pcs branch False m (state_data st)))"
proof (intro conjI impI allI)
  assume "branch_empty branch"
  then show "R = (None, None, log)"
    by (simp add: R_def populate_branch_def)
next
  fix promoted
  assume "\<not> branch_empty branch" and "parent_state branch = Some promoted"
  then show "R = (Some (promote pcs promoted (entry_header (branch_top branch))),
                  Some (promote pcs promoted (entry_header (branch_top branch))), log)"
    by (simp add: R_def populate_branch_def Let_def)
next
  assume full: "\<not> branch_empty branch \<and> parent_state branch = None"
  define data where
    "data = fresh_data (hash_of_header pcs (entry_header (branch_top branch)))
              (branch_top_height branch)"
  define A where "A = populate_all pcs data branch False log"
  have m: "m = get_map pcs (data_height data) (checkpoints_sorted pcs) (forks pcs)"
    by (simp add: m_def data_def fresh_data_def)
  have R: "R = (if \<not> fst A then (None, None, snd (snd A))
                else (Some (make_chain_state pcs (fst (snd A))), None, snd (snd A)))"
    using full
    by (simp add: R_def populate_branch_def A_def data_def case_prod_beta)
  note flag = populate_all_flag [of pcs data branch False log, folded A_def m]
  note logs = populate_all_log [of pcs data branch False log, folded A_def]
  note vals = populate_all_values [of pcs data branch False log, folded A_def m]
  show "fst R = None \<longleftrightarrow> \<not> list_all (available pcs branch False) (required m)"
    by (simp add: R flag [symmetric])
  show "\<exists>ex. snd (snd R) = log @ ex \<and> list_all (beyond_branch branch False) ex"
    using logs by (simp add: R)
  fix st
  assume "fst R = Some st"
  then have "fst A" and "st = make_chain_state pcs (fst (snd A))"
    by (auto simp add: R split: if_splits)
  then show "fully_populated pcs branch False m (state_data st)"
    using vals by (simp add: make_chain_state_def)
qed

theorem populate_branch_spec_witness:
  "\<not> branch_empty (sample_branch False None)
   \<and> parent_state (sample_branch False None) = None
   \<and> list_all
       (available (sample_populator (sample_fast_chain 10)) (sample_branch False None) False)
       (required (sample_map 12))
   \<and> (\<exists>st. fst (populate_branch (sample_populator (sample_fast_chain 10))
                 (sample_branch False None) []) = Some st
          \<and> fully_populated (sample_populator (sample_fast_chain 10)) (sample_branch False None)
               False (sample_map 12) (state_data st))
   \<and> \<not> list_all
       (available (sample_populator (sample_fast_chain 5)) (sample_branch False None) False)
       (required (sample_map 12))
   \<and> fst (populate_branch (sample_populator (sample_fast_chain 5))
            (sample_branch False None) []) = None
   \<and> populate_branch (sample_populator (sample_fast_chain 10))
        (sample_branch False (Some sample_state)) []
      = (Some (promote (sample_populator (sample_fast_chain 10)) sample_state
                 (sample_branch_header 12)),
         Some (promote (sample_populator (sample_fast_chain 10)) sample_state
                 (sample_branch_header 12)), [])
   \<and> populate_branch (sample_populator (sample_fast_chain 10)) (sample_branch True None) []
      = (None, None, [])"
proof -
  have a10: "list_all
       (available (sample_populator (sample_fast_chain 10)) (sample_branch False None) False)
       (required (sample_map 12))"
    by (simp add: sample_required available_def branch_value_def chain_value_def
        sample_chain_defs)
  have a5: "\<not> list_all
       (available (sample_populator (sample_fast_chain 5)) (sample_branch False None) False)
       (required (sample_map 12))"
    by (simp add: sample_required available_def branch_value_def chain_value_def
        sample_chain_defs)
  have b: "\<not> branch_empty (sample_branch False None)"
    "parent_state (sample_branch False None) = None"
    "branch_top_height (sample_branch False None) = 12"
    "\<not> branch_empty (sample_branch False (Some sample_state))"
    "parent_state (sample_branch False (Some sample_state)) = Some sample_state"
    "entry_header (branch_top (sample_branch False (Some sample_state))) = sample_branch_header 12"
    "branch_empty (sample_branch True None)"
    by (simp_all add: sample_branch_def parent_state_def)
  have g: "get_map (sample_populator fc) h [] 0 = sample_map h" for fc h
    by (simp add: sample_populator_def)
  have c: "checkpoints_sorted (sample_populator fc) = []" "forks (sample_populator fc) = 0" for fc
    by (simp_all add: sample_populator_def)
  note t10 = populate_branch_spec [of "sample_branch False None"
      "sample_populator (sample_fast_chain 10)" "[]"]
  note t5 = populate_branch_spec [of "sample_branch False None"
      "sample_populator (sample_fast_chain 5)" "[]"]
  note tp = populate_branch_spec [of "sample_branch False (Some sample_state)"
      "sample_populator (sample_fast_chain 10)" "[]"]
  note te = populate_branch_spec [of "sample_branch True None"
      "sample_populator (sample_fast_chain 10)" "[]"]
  have "\<exists>st. fst (populate_branch (sample_populator (sample_fast_chain 10))
                 (sample_branch False None) []) = Some st
          \<and> fully_populated (sample_populator (sample_fast_chain 10)) (sample_branch False None)
               False (sample_map 12) (state_data st)"
    using t10 a10 b(1,2) by (simp only: b(3) c g) auto
  moreover have "fst (populate_branch (sample_populator (sample_fast_chain 5))
            (sample_branch False None) []) = None"
    using t5 a5 b(1,2) by (simp only: b(3) c g) auto
  moreover have "populate_branch (sample_populator (sample_fast_chain 10))
        (sample_branch False (Some sample_state)) []
      = (Some (promote (sample_populator (sample_fast_chain 10)) sample_state
                 (sample_branch_header 12)),
         Some (promote (sample_populator (sample_fast_chain 10)) sample_state
                 (sample_branch_header 12)), [])"
    using tp b(4,5) by (simp add: b(6))
  moreover have "populate_branch (sample_populator (sample_fast_chain 10))
        (sample_branch True None) [] = (None, None, [])"
    using te b(7) by simp
  ultimately show ?thesis
    using a10 a5 b(1,2) by blast
qed

section \<open>Properties of block population\<close>

lemma step_mod:
  fixes t position k :: nat
  assumes "position \<le> t"
  shows "(t - position) mod Suc k = 0
           \<longleftrightarrow> t = position \<or> (position + Suc k \<le> t \<and> (t - (position + Suc k)) mod Suc k = 0)"
proof (cases "t - position < Suc k")
  case True
  then show ?thesis using assms by auto
next
  case False
  then have "(t - position) mod Suc k = (t - position - Suc k) mod Suc k"
    by (simp add: le_mod_geq)
  then show ?thesis using assms False by auto
qed

lemma tx_pass_count:
  "count_list (tx_pass fks fh position k n) (Populate_transaction t fks' fh')
     = (if fks' = fks \<and> fh' = fh \<and> position \<le> t \<and> t < n \<and> (t - position) mod Suc k = 0
        then 1 else 0)"
proof (induction fks fh position k n rule: tx_pass.induct)
  case (1 fks fh position k n)
  show ?case
  proof (cases "position < n")
    case False
    then show ?thesis
      by (subst tx_pass.simps) simp
  next
    case True
    have unfold: "tx_pass fks fh position k n
            = Populate_transaction position fks fh # tx_pass fks fh (position + Suc k) k n"
      using True by (subst tx_pass.simps) simp
    show ?thesis
    proof (cases "position \<le> t")
      case below: False
      then show ?thesis
        using 1 [OF True] by (simp only: unfold) auto
    next
      case True
      show ?thesis
        using 1 [OF \<open>position < n\<close>] step_mod [OF True, of k] \<open>position < n\<close>
        by (simp only: unfold) auto
    qed
  qed
qed

lemma tx_pass_no_output: "count_list (tx_pass fks fh position k n) (Populate_output t i fh') = 0"
proof (induction fks fh position k n rule: tx_pass.induct)
  case (1 fks fh position k n)
  then show ?case
    by (subst tx_pass.simps) simp
qed

lemma input_loop_position:
  "snd (input_loop fh b B tpos inps i0 p0) = p0 + length inps"
  by (induction inps arbitrary: i0 p0) (simp_all add: case_prod_beta)

lemma input_loop_count:
  "count_list (fst (input_loop fh b B tpos inps i0 p0)) (Populate_output t i fh')
     = (if t = tpos \<and> fh' = fh \<and> i0 \<le> i \<and> i < i0 + length inps \<and> (p0 + (i - i0)) mod B = b
        then 1 else 0)"
proof (induction inps arbitrary: i0 p0)
  case Nil
  then show ?case by simp
next
  case (Cons inp rest)
  define calls where "calls = fst (input_loop fh b B tpos rest (Suc i0) (Suc p0))"
  have unfold: "fst (input_loop fh b B tpos (inp # rest) i0 p0)
          = (if p0 mod B \<noteq> b then calls else Populate_output tpos i0 fh # calls)"
    by (simp add: calls_def case_prod_beta)
  have ih: "count_list calls (Populate_output t i fh')
          = (if t = tpos \<and> fh' = fh \<and> Suc i0 \<le> i \<and> i < Suc i0 + length rest
                \<and> (Suc p0 + (i - Suc i0)) mod B = b
             then 1 else 0)"
    unfolding calls_def by (rule Cons.IH)
  have step: "count_list (fst (input_loop fh b B tpos (inp # rest) i0 p0))
                (Populate_output t i fh')
          = (if p0 mod B = b \<and> t = tpos \<and> i = i0 \<and> fh' = fh then 1 else 0)
            + count_list calls (Populate_output t i fh')"
    unfolding unfold by simp
  show ?case
  proof (cases "Suc i0 \<le> i")
    case True
    then have "Suc p0 + (i - Suc i0) = p0 + (i - i0)" and "i \<noteq> i0" and "i0 \<le> i"
      by simp_all
    then show ?thesis
      unfolding step ih using True by simp
  next
    case False
    show ?thesis
    proof (cases "i = i0")
      case True
      then show ?thesis
        unfolding step ih by simp
    next
      case False
      with \<open>\<not> Suc i0 \<le> i\<close> have "\<not> i0 \<le> i"
        by simp
      then show ?thesis
        unfolding step ih using False by simp
    qed
  qed
qed

lemma input_loop_no_transaction:
  "count_list (fst (input_loop fh b B tpos inps i0 p0)) (Populate_transaction t fks fh') = 0"
  by (induction inps arbitrary: i0 p0) (simp_all add: case_prod_beta)

lemma output_pass_no_transaction:
  "count_list (output_pass fh b B txs tpos p0) (Populate_transaction t fks fh') = 0"
  by (induction txs arbitrary: tpos p0) (simp_all add: case_prod_beta input_loop_no_transaction)

lemma output_pass_count:
  "count_list (output_pass fh b B txs tpos p0) (Populate_output t i fh')
     = (if fh' = fh \<and> tpos \<le> t \<and> t < tpos + length txs
           \<and> i < length (inputs (txs ! (t - tpos)))
           \<and> (p0 + sum_list (map (\<lambda>tx. length (inputs tx)) (take (t - tpos) txs)) + i) mod B = b
        then 1 else 0)"
proof (induction txs arbitrary: tpos p0)
  case Nil
  then show ?case by simp
next
  case (Cons tx txs)
  note IH = Cons.IH [of "Suc tpos" "p0 + length (inputs tx)"]
  show ?case
  proof (cases "t = tpos")
    case True
    then show ?thesis
      using IH by (simp add: case_prod_beta input_loop_count input_loop_position)
  next
    case False
    show ?thesis
    proof (cases "Suc tpos \<le> t")
      case True
      then obtain d where d: "t - tpos = Suc d" and d': "t - Suc tpos = d"
        by (cases "t - tpos") simp_all
      show ?thesis
        using IH True False
        by (simp add: case_prod_beta input_loop_count input_loop_position d d' add.assoc)
    next
      case below: False
      then show ?thesis
        using IH False
        by (simp add: case_prod_beta input_loop_count input_loop_position)
    qed
  qed
qed

text \<open>The transaction positions of a bucket are those congruent to it, the coinbase left out.\<close>

lemma bucket_positions:
  fixes t bucket B :: nat
  assumes "bucket < B" and "0 < t"
  shows "((if bucket = 0 then B else bucket) \<le> t
            \<and> (t - (if bucket = 0 then B else bucket)) mod Suc (B - 1) = 0)
         \<longleftrightarrow> t mod B = bucket"
proof -
  have B: "Suc (B - 1) = B" "Suc (B - Suc 0) = B"
    using assms(1) by simp_all
  show ?thesis
  proof (cases "bucket = 0")
    case True
    have "B \<le> t \<and> (t - B) mod B = 0 \<longleftrightarrow> t mod B = 0"
    proof
      assume "B \<le> t \<and> (t - B) mod B = 0"
      then show "t mod B = 0"
        by (simp add: le_mod_geq)
    next
      assume z: "t mod B = 0"
      then have "B \<le> t"
        using assms by (metis mod_less not_le less_numeral_extra(3))
      then show "B \<le> t \<and> (t - B) mod B = 0"
        using z by (simp add: le_mod_geq)
    qed
    then show ?thesis
      using True by (simp add: B)
  next
    case False
    have "bucket \<le> t \<and> (t - bucket) mod B = 0 \<longleftrightarrow> t mod B = bucket"
    proof
      assume a: "bucket \<le> t \<and> (t - bucket) mod B = 0"
      then have "B dvd t - bucket"
        by auto
      then have "t mod B = bucket mod B"
        using a by (simp add: mod_eq_dvd_iff_nat)
      then show "t mod B = bucket"
        using assms(1) by simp
    next
      assume e: "t mod B = bucket"
      then have le: "bucket \<le> t"
        by (metis mod_less_eq_dividend)
      have "t mod B = bucket mod B"
        using e assms(1) by simp
      then have "B dvd t - bucket"
        using le by (simp add: mod_eq_dvd_iff_nat)
      then show "bucket \<le> t \<and> (t - bucket) mod B = 0"
        using le by auto
    qed
    then show ?thesis
      using False by (simp add: B)
  qed
qed

text \<open>
  Within a bucket, the calls that write the record of an input are the calls of
  \<^verbatim>\<open>populate_output\<close> on it.
\<close>

lemma tx_pass_writes: "filter (writes_record t i) (tx_pass fks fh position k n) = []"
proof (induction fks fh position k n rule: tx_pass.induct)
  case (1 fks fh position k n)
  then show ?case
    by (subst tx_pass.simps) simp
qed

lemma input_loop_writes:
  "length (filter (writes_record t i) (fst (input_loop fh b B tpos inps i0 p0)))
     = count_list (fst (input_loop fh b B tpos inps i0 p0)) (Populate_output t i fh)"
  by (induction inps arbitrary: i0 p0) (auto simp add: case_prod_beta)

lemma output_pass_writes:
  "length (filter (writes_record t i) (output_pass fh b B txs tpos p0))
     = count_list (output_pass fh b B txs tpos p0) (Populate_output t i fh)"
  by (induction txs arbitrary: tpos p0) (simp_all add: case_prod_beta input_loop_writes)

lemma length_filter_concat:
  "length (filter P (concat ls)) = (\<Sum>b<length ls. length (filter P (ls ! b)))"
proof (induction ls rule: rev_induct)
  case Nil
  then show ?case by simp
next
  case (snoc l ls)
  have "(\<Sum>b<length ls. length (filter P ((ls @ [l]) ! b)))
          = (\<Sum>b<length ls. length (filter P (ls ! b)))"
    by (intro sum.cong) (simp_all add: nth_append)
  then show ?case
    using snoc by simp
qed

lemma populate_transactions_outputs:
  assumes "bucket < B" and "transactions blk \<noteq> []"
  shows "\<exists>calls. populate_transactions pb blk st fh bucket B = Some calls
           \<and> (\<forall>t i. 0 < t \<and> t < length (transactions blk)
                    \<and> i < length (inputs (transactions blk ! t)) \<longrightarrow>
                  count_list calls (Populate_output t i fh)
                    = (if input_position_of (transactions blk) t i mod B = bucket then 1 else 0))
           \<and> (\<forall>t. 0 < t \<and> t < length (transactions blk) \<longrightarrow>
                  count_list calls (Populate_transaction t (enabled_forks st) fh)
                    = (if (\<not> is_blocks_stale pb \<or> \<not> allow_collisions_enabled st)
                          \<and> t mod B = bucket then 1 else 0))
           \<and> (\<forall>t i. length (filter (writes_record t i) calls)
                       = count_list calls (Populate_output t i fh))
           \<and> (\<forall>i. count_list calls (Populate_output 0 i fh) = 0)"
proof -
  let ?txs = "transactions blk"
  let ?first = "if bucket = 0 then B else bucket"
  define pass where
    "pass = (if \<not> is_blocks_stale pb \<or> \<not> allow_collisions_enabled st
             then tx_pass (enabled_forks st) fh ?first (B - 1) (length ?txs) else [])"
  define calls where "calls = pass @ output_pass fh bucket B (tl ?txs) 1 0"
  have run: "populate_transactions pb blk st fh bucket B = Some calls"
    using assms by (simp add: populate_transactions_def calls_def pass_def Let_def)
  have outs: "count_list calls (Populate_output t i fh)
                = (if input_position_of ?txs t i mod B = bucket then 1 else 0)"
    if "0 < t" "t < length ?txs" "i < length (inputs (?txs ! t))" for t i
  proof -
    have "tl ?txs ! (t - 1) = ?txs ! t"
      using that assms(2) by (cases ?txs) (simp_all add: nth_Cons')
    moreover have "t < 1 + length (tl ?txs)"
      using that assms(2) by simp
    ultimately show ?thesis
      using that
      by (simp add: calls_def pass_def tx_pass_no_output output_pass_count
          input_position_of_def)
  qed
  have txs: "count_list calls (Populate_transaction t (enabled_forks st) fh)
               = (if (\<not> is_blocks_stale pb \<or> \<not> allow_collisions_enabled st)
                     \<and> t mod B = bucket then 1 else 0)"
    if "0 < t" "t < length ?txs" for t
    using that bucket_positions [OF assms(1) that(1)]
    by (simp add: calls_def pass_def tx_pass_count output_pass_no_transaction)
  have writes: "length (filter (writes_record t i) calls)
                  = count_list calls (Populate_output t i fh)" for t i
    by (simp add: calls_def pass_def tx_pass_writes tx_pass_no_output output_pass_writes)
  have none: "count_list calls (Populate_output 0 i fh) = 0" for i
    by (simp add: calls_def pass_def tx_pass_no_output output_pass_count)
  show ?thesis
    using run outs txs writes none by blast
qed

lemma one_bucket_sum:
  fixes k B :: nat and f :: "nat \<Rightarrow> nat"
  assumes "k < B" and "\<And>b. b < B \<Longrightarrow> f b = (if b = k then 1 else 0)"
  shows "sum f {..<B} = 1"
proof -
  have "sum f {..<B} = (\<Sum>b\<in>{..<B}. if b = k then 1 else 0)"
    using assms(2) by (intro sum.cong) simp_all
  also have "\<dots> = 1"
    using assms(1) by simp
  finally show ?thesis .
qed

lemmas sample_populate_defs = sample_populate_block_def sample_block_of_def sample_header_def
  sample_coinbase_def sample_spend_def sample_spend_two_def

text \<open>
  C8, as stated, fails when the block index is stale and the collision fork is enabled:
  the per-transaction pass is skipped, so the transaction at position 1 is visited by no
  bucket. Its input is still populated, once.
\<close>

theorem populate_skips_transactions_counterexample:
  "populate (sample_populate_block True)
     (sample_block_of 0 [sample_coinbase [], sample_spend 8 0]) 7
   = Some \<lparr>handled = [Success],
           coinbase_calls = [Coinbase_metadata, Populate_transaction 0 0 7],
           bucket_calls = [[Populate_output 1 0 7]]\<rparr>
   \<and> count_list (concat [[Populate_output 1 0 7]]) (Populate_transaction 1 0 7) = 0"
  by (simp add: populate_def populate_coinbase_def total_non_coinbase_inputs_def
      populate_transactions_def synchronize_def sample_populate_defs)

text \<open>
  C8, amended. When population reaches the buckets (the block has a chain state above
  the checkpoints, its coinbase has an input, and the bucket count \<open>B\<close>, the smaller of
  the worker slots and the non-coinbase inputs, is positive), it completes once, with
  success, and runs \<open>B\<close> buckets. Every non-coinbase input, at place \<open>p\<close> among the
  non-coinbase inputs, has \<^verbatim>\<open>populate_output\<close> called on its previous output once by
  bucket \<open>p mod B\<close> and by no other bucket. Every non-coinbase transaction position
  \<open>t\<close> is visited by the per-transaction pass of bucket \<open>t mod B\<close> once and of no other
  bucket when that pass runs, and by none when it is skipped (the index is stale and the
  collision fork enabled). The coinbase step writes the record of the coinbase input and
  populates the coinbase transaction. Hence the metadata record of every input of the
  block is written exactly once in the whole run, the coinbase step and all buckets
  taken together: the record of the coinbase's first input, and of every input of every
  other transaction; a coinbase has one input, so that is every input.
\<close>

theorem populate_partitions_work:
  fixes pb blk fork_height st
  defines "B \<equiv> min (dispatch_size pb) (total_non_coinbase_inputs blk)"
  defines "txs \<equiv> transactions blk"
  assumes "chain_state_of pb blk = Some st" and "\<not> is_under_checkpoint st"
    and "0 < B" and "inputs (hd txs) \<noteq> []"
  shows "\<exists>res. populate pb blk fork_height = Some res
           \<and> handled res = [Success]
           \<and> length (bucket_calls res) = B
           \<and> (\<forall>t i. 0 < t \<and> t < length txs \<and> i < length (inputs (txs ! t)) \<longrightarrow>
                 (\<forall>b < B. count_list (bucket_calls res ! b) (Populate_output t i fork_height)
                             = (if b = input_position_of txs t i mod B then 1 else 0))
                 \<and> (\<Sum>b<B. count_list (bucket_calls res ! b)
                               (Populate_output t i fork_height)) = 1)
           \<and> (\<forall>t. 0 < t \<and> t < length txs \<longrightarrow>
                 (\<forall>b < B. count_list (bucket_calls res ! b)
                              (Populate_transaction t (enabled_forks st) fork_height)
                             = (if (\<not> is_blocks_stale pb \<or> \<not> allow_collisions_enabled st)
                                   \<and> b = t mod B then 1 else 0)))
           \<and> coinbase_calls res
               = [Coinbase_metadata, Populate_transaction 0 (enabled_forks st) fork_height]
           \<and> (\<forall>t i. t < length txs \<and> i < length (inputs (txs ! t)) \<and> (0 < t \<or> i = 0) \<longrightarrow>
                 record_writes res t i = 1)
           \<and> (length (inputs (hd txs)) = 1 \<longrightarrow>
                 (\<forall>t i. t < length txs \<and> i < length (inputs (txs ! t)) \<longrightarrow>
                    record_writes res t i = 1))"
proof -
  have inputs: "0 < total_non_coinbase_inputs blk"
    using assms(5) by (simp add: B_def)
  then have nonempty: "txs \<noteq> []"
    by (auto simp add: total_non_coinbase_inputs_def txs_def)
  then have coinbase: "populate_coinbase blk st fork_height
      = Some [Coinbase_metadata, Populate_transaction 0 (enabled_forks st) fork_height]"
    using assms(6) by (cases txs) (simp_all add: populate_coinbase_def txs_def)
  define run where "run = (\<lambda>bucket. populate_transactions pb blk st fork_height bucket B)"
  define res where
    "res = \<lparr>handled = (case synchronize (map (map_option (\<lambda>calls. Success)) (map run [0 ..< B])) of
                          None \<Rightarrow> [] | Some ec \<Rightarrow> [ec]),
             coinbase_calls = [Coinbase_metadata,
                               Populate_transaction 0 (enabled_forks st) fork_height],
             bucket_calls = map (\<lambda>r. case r of None \<Rightarrow> [] | Some calls \<Rightarrow> calls)
                              (map run [0 ..< B])\<rparr>"
  have populate: "populate pb blk fork_height = Some res"
    using assms(3,4) inputs coinbase
    by (simp add: populate_def Let_def res_def run_def B_def)
  have each: "\<exists>calls. run b = Some calls
           \<and> (\<forall>t i. 0 < t \<and> t < length txs \<and> i < length (inputs (txs ! t)) \<longrightarrow>
                  count_list calls (Populate_output t i fork_height)
                    = (if input_position_of txs t i mod B = b then 1 else 0))
           \<and> (\<forall>t. 0 < t \<and> t < length txs \<longrightarrow>
                  count_list calls (Populate_transaction t (enabled_forks st) fork_height)
                    = (if (\<not> is_blocks_stale pb \<or> \<not> allow_collisions_enabled st)
                          \<and> t mod B = b then 1 else 0))
           \<and> (\<forall>t i. length (filter (writes_record t i) calls)
                       = count_list calls (Populate_output t i fork_height))
           \<and> (\<forall>i. count_list calls (Populate_output 0 i fork_height) = 0)"
    if "b < B" for b
    unfolding run_def txs_def
    using that nonempty by (intro populate_transactions_outputs) (simp_all add: txs_def)
  have all_done: "map (map_option (\<lambda>calls. Success)) (map run [0 ..< B])
                    = replicate B (Some Success)"
  proof (rule nth_equalityI)
    show "length (map (map_option (\<lambda>calls. Success)) (map run [0 ..< B]))
            = length (replicate B (Some Success))"
      by simp
  next
    fix b
    assume "b < length (map (map_option (\<lambda>calls. Success)) (map run [0 ..< B]))"
    then have "b < B"
      by simp
    then show "map (map_option (\<lambda>calls. Success)) (map run [0 ..< B]) ! b
                 = replicate B (Some Success) ! b"
      using each [of b] by auto
  qed
  have no_failure: "first_failure (replicate n (Some Success)) = None" for n
    by (induction n) simp_all
  have sync: "synchronize (replicate B (Some Success)) = Some Success"
    using assms(5) by (simp add: synchronize_def no_failure list_all_length)
  have handled: "handled res = [Success]"
    unfolding res_def all_done sync by simp
  have bucket: "bucket_calls res ! b = the (run b)" if "b < B" for b
    using that each [of b] by (auto simp add: res_def)
  have outs: "count_list (bucket_calls res ! b) (Populate_output t i fork_height)
                = (if b = input_position_of txs t i mod B then 1 else 0)"
    if "b < B" "0 < t" "t < length txs" "i < length (inputs (txs ! t))" for b t i
    using that each [of b] by (auto simp add: bucket)
  have once: "(\<Sum>b<B. count_list (bucket_calls res ! b) (Populate_output t i fork_height)) = 1"
    if "0 < t" "t < length txs" "i < length (inputs (txs ! t))" for t i
    using assms(5) outs [OF _ that]
    by (intro one_bucket_sum [of "input_position_of txs t i mod B"]) simp_all
  have visits: "count_list (bucket_calls res ! b)
                  (Populate_transaction t (enabled_forks st) fork_height)
                = (if (\<not> is_blocks_stale pb \<or> \<not> allow_collisions_enabled st)
                      \<and> b = t mod B then 1 else 0)"
    if "b < B" "0 < t" "t < length txs" for b t
    using that each [of b] by (auto simp add: bucket)
  have buckets: "length (bucket_calls res) = B"
    by (simp add: res_def)
  have coinbase_step: "coinbase_calls res
      = [Coinbase_metadata, Populate_transaction 0 (enabled_forks st) fork_height]"
    by (simp add: res_def)
  have counted: "record_writes res t i
      = length (filter (writes_record t i) (coinbase_calls res))
        + (\<Sum>b<B. count_list (bucket_calls res ! b) (Populate_output t i fork_height))"
    for t i
  proof -
    have "(\<Sum>b<B. length (filter (writes_record t i) (bucket_calls res ! b)))
            = (\<Sum>b<B. count_list (bucket_calls res ! b) (Populate_output t i fork_height))"
    proof (intro sum.cong refl)
      fix b
      assume "b \<in> {..<B}"
      then have "b < B"
        by simp
      from each [OF this] show "length (filter (writes_record t i) (bucket_calls res ! b))
          = count_list (bucket_calls res ! b) (Populate_output t i fork_height)"
        using \<open>b < B\<close> by (auto simp add: bucket)
    qed
    then show ?thesis
      by (simp add: record_writes_def length_filter_concat buckets)
  qed
  have first_input: "record_writes res 0 0 = 1"
  proof -
    have "(\<Sum>b<B. count_list (bucket_calls res ! b) (Populate_output 0 0 fork_height))
            = (\<Sum>b<B. 0)"
    proof (intro sum.cong refl)
      fix b
      assume "b \<in> {..<B}"
      then have "b < B"
        by simp
      from each [OF this]
      show "count_list (bucket_calls res ! b) (Populate_output 0 0 fork_height) = 0"
        using \<open>b < B\<close> by (auto simp add: bucket)
    qed
    then show ?thesis
      by (simp add: counted coinbase_step)
  qed
  have other_inputs: "record_writes res t i = 1"
    if "0 < t" "t < length txs" "i < length (inputs (txs ! t))" for t i
    using that once [OF that] by (simp add: counted coinbase_step)
  have every: "record_writes res t i = 1"
    if "t < length txs" "i < length (inputs (txs ! t))" "0 < t \<or> i = 0" for t i
    using that first_input other_inputs by (cases "t = 0") auto
  have coinbase_one: "record_writes res t i = 1"
    if "length (inputs (hd txs)) = 1" "t < length txs" "i < length (inputs (txs ! t))" for t i
  proof (cases "t = 0")
    case True
    then have "i = 0"
      using that nonempty by (simp add: hd_conv_nth)
    then show ?thesis
      using True first_input by simp
  next
    case False
    then show ?thesis
      using that other_inputs by simp
  qed
  show ?thesis
    using populate handled buckets outs once visits coinbase_step every coinbase_one by blast
qed

theorem populate_partitions_work_witness:
  "chain_state_of (sample_populate_block False)
     (sample_block_of 0 [sample_coinbase [], sample_spend_two, sample_spend 8 0])
     = Some \<lparr>is_under_checkpoint = False, allow_collisions_enabled = True, enabled_forks = 0\<rparr>
   \<and> min (dispatch_size (sample_populate_block False))
         (total_non_coinbase_inputs
            (sample_block_of 0 [sample_coinbase [], sample_spend_two, sample_spend 8 0])) = 2
   \<and> (\<exists>res. populate (sample_populate_block False)
                (sample_block_of 0 [sample_coinbase [], sample_spend_two, sample_spend 8 0]) 7
              = Some res
            \<and> handled res = [Success]
            \<and> length (bucket_calls res) = 2
            \<and> count_list (bucket_calls res ! 1) (Populate_output 1 1 7) = 1
            \<and> count_list (bucket_calls res ! 0) (Populate_output 1 1 7) = 0
            \<and> (\<Sum>b<2. count_list (bucket_calls res ! b) (Populate_output 1 1 7)) = 1
            \<and> count_list (bucket_calls res ! 0) (Populate_transaction 2 0 7) = 1
            \<and> count_list (bucket_calls res ! 1) (Populate_transaction 2 0 7) = 0
            \<and> coinbase_calls res = [Coinbase_metadata, Populate_transaction 0 0 7]
            \<and> record_writes res 0 0 = 1
            \<and> record_writes res 1 0 = 1
            \<and> record_writes res 1 1 = 1
            \<and> record_writes res 2 0 = 1)"
proof -
  let ?pb = "sample_populate_block False"
  let ?blk = "sample_block_of 0 [sample_coinbase [], sample_spend_two, sample_spend 8 0]"
  let ?st = "\<lparr>is_under_checkpoint = False, allow_collisions_enabled = True, enabled_forks = 0\<rparr>"
  have st: "chain_state_of ?pb ?blk = Some ?st"
    by (simp add: sample_populate_block_def)
  have B: "min (dispatch_size ?pb) (total_non_coinbase_inputs ?blk) = 2"
    by (simp add: total_non_coinbase_inputs_def sample_populate_defs)
  have txs: "transactions ?blk = [sample_coinbase [], sample_spend_two, sample_spend 8 0]"
    by (simp add: sample_block_of_def)
  have cb: "inputs (hd (transactions ?blk)) \<noteq> []"
    by (simp add: sample_block_of_def sample_coinbase_def)
  have p: "input_position_of (transactions ?blk) 1 1 = 1"
    by (simp add: input_position_of_def sample_block_of_def)
  have facts: "\<not> is_under_checkpoint ?st" "(0::nat) < 2" "enabled_forks ?st = 0"
    "\<not> is_blocks_stale ?pb" "length (transactions ?blk) = 3"
    "length (inputs (transactions ?blk ! 1)) = 2"
    by (simp_all add: sample_block_of_def sample_spend_two_def sample_populate_block_def)
  from populate_partitions_work [of ?pb ?blk ?st 7, unfolded B, OF st facts(1,2) cb]
  obtain res where res: "populate ?pb ?blk 7 = Some res" "handled res = [Success]"
      "length (bucket_calls res) = 2"
    and outs: "\<And>t i. 0 < t \<and> t < length (transactions ?blk)
                  \<and> i < length (inputs (transactions ?blk ! t)) \<Longrightarrow>
                 (\<forall>b < 2. count_list (bucket_calls res ! b) (Populate_output t i 7)
                             = (if b = input_position_of (transactions ?blk) t i mod 2
                                then 1 else 0))
                 \<and> (\<Sum>b<2. count_list (bucket_calls res ! b) (Populate_output t i 7)) = 1"
    and visits: "\<And>t. 0 < t \<and> t < length (transactions ?blk) \<Longrightarrow>
                 (\<forall>b < 2. count_list (bucket_calls res ! b)
                              (Populate_transaction t (enabled_forks ?st) 7)
                             = (if (\<not> is_blocks_stale ?pb \<or> \<not> allow_collisions_enabled ?st)
                                   \<and> b = t mod 2 then 1 else 0))"
    and step: "coinbase_calls res
                 = [Coinbase_metadata, Populate_transaction 0 (enabled_forks ?st) 7]"
    and every: "length (inputs (hd (transactions ?blk))) = 1 \<Longrightarrow>
                 (\<forall>t i. t < length (transactions ?blk)
                     \<and> i < length (inputs (transactions ?blk ! t)) \<longrightarrow>
                    record_writes res t i = 1)"
    by blast
  have one: "length (inputs (hd (transactions ?blk))) = 1"
    by (simp add: sample_block_of_def sample_coinbase_def)
  have shape: "(0::nat) < length (transactions ?blk)"
    "(0::nat) < length (inputs (transactions ?blk ! 0))"
    "(1::nat) < length (transactions ?blk)"
    "(0::nat) < length (inputs (transactions ?blk ! 1))"
    "(1::nat) < length (inputs (transactions ?blk ! 1))"
    "(2::nat) < length (transactions ?blk)"
    "(0::nat) < length (inputs (transactions ?blk ! 2))"
    by (simp_all add: sample_block_of_def sample_coinbase_def sample_spend_two_def
        sample_spend_def)
  have written: "record_writes res 0 0 = 1" "record_writes res 1 0 = 1"
    "record_writes res 1 1 = 1" "record_writes res 2 0 = 1"
    using every [OF one] shape by blast+
  have prem1: "0 < (1::nat) \<and> 1 < length (transactions ?blk)
                 \<and> 1 < length (inputs (transactions ?blk ! 1))"
    by (simp add: sample_block_of_def sample_spend_two_def)
  have prem2: "0 < (2::nat) \<and> 2 < length (transactions ?blk)"
    by (simp add: sample_block_of_def)
  have m: "(1::nat) mod 2 = 1" "(2::nat) mod 2 = 0"
    by simp_all
  note o = outs [OF prem1, unfolded p m]
  note v = visits [OF prem2, unfolded facts(3) m]
  have "count_list (bucket_calls res ! 1) (Populate_output 1 1 7) = 1"
    "count_list (bucket_calls res ! 0) (Populate_output 1 1 7) = 0"
    using o by simp_all
  moreover have "count_list (bucket_calls res ! 0) (Populate_transaction 2 0 7) = 1"
    "count_list (bucket_calls res ! 1) (Populate_transaction 2 0 7) = 0"
    using v facts(4) by simp_all
  moreover have "(\<Sum>b<2. count_list (bucket_calls res ! b) (Populate_output 1 1 7)) = 1"
    using o by blast
  ultimately show ?thesis
    using st B res step written by (simp add: facts(3))
qed

end
